theory Spec2Isabelle
  imports Complex_Main
begin

section \<open>The shooter's simulation core (ArcheroGame)\<close>

text \<open>
  The TypeScript component keeps its state in React hooks and advances it once per
  animation frame in \<^verbatim>\<open>gameLoop\<close>.  Each stage of the loop is embedded as a function
  from the state it reads to the state it writes.  A JavaScript \<^verbatim>\<open>number\<close> is modelled
  as a \<^typ>\<open>real\<close> (exact arithmetic, no rounding); the arrow count, which starts at 1
  and is only ever incremented by 1, is a \<^typ>\<open>nat\<close>.  \<^verbatim>\<open>Math.random()\<close> is an
  explicit source \<open>rnd :: nat \<Rightarrow> real\<close> read at a running index.  The source file
  holds two versions of the component; the later one, with the trapezoid arena, the
  obstacles and the spawn invulnerability, is the one embedded here.
\<close>

subsection \<open>Data model\<close>

text \<open>
  The TypeScript intersection types become record extensions.  The field names are the
  source's, so the variables of the functions below avoid them (\<open>px\<close>, \<open>py\<close> for a
  position, \<open>cx\<close>, \<open>cy\<close>, \<open>cr\<close> for a circle).
\<close>

record Vector2D =
  x :: real
  y :: real

record Entity = Vector2D +
  vx :: real
  vy :: real
  radius :: real

record Player = Entity +
  aimX :: real
  aimY :: real
  lastFireTime :: real

record Projectile = Entity +
  createdAt :: real
  piercesLeft :: int
  canRicochet :: bool

record Enemy = Entity +
  spawnInvulUntil :: real

text \<open>A drop is a position with a radius of its own (it has no velocity).\<close>

record Drop = Vector2D +
  drop_radius :: real

record Obstacle = Vector2D +
  width :: real
  height :: real

record stats =
  playerSpeed :: real
  projectileSpeed :: real
  arrowCount :: nat
  pierce :: bool
  ricochet :: bool

record perk =
  perk_id :: string
  perk_label :: string

text \<open>The initial values of the player and stats hooks.\<close>

definition initialPlayer :: Player where
  "initialPlayer = \<lparr> x = 640, y = 360, vx = 0, vy = 0, radius = 14,
                      aimX = 1, aimY = 0, lastFireTime = 0 \<rparr>"

definition initialStats :: stats where
  "initialStats = \<lparr> playerSpeed = 3.12, projectileSpeed = 6, arrowCount = 1,
                     pierce = False, ricochet = False \<rparr>"

subsection \<open>Constants and the trapezoid arena\<close>

definition canvasWidth :: real where "canvasWidth = 1280"
definition canvasHeight :: real where "canvasHeight = 720"
definition TOP_HALF_W :: real where "TOP_HALF_W = canvasWidth * 0.16"
definition BOT_HALF_W :: real where "BOT_HALF_W = canvasWidth * 0.28"
definition TOP_Y :: real where "TOP_Y = canvasHeight * 0.06"
definition BOTTOM_Y :: real where "BOTTOM_Y = canvasHeight * 0.98"
definition cxArena :: real where "cxArena = canvasWidth / 2"
definition MAX_ENEMIES :: nat where "MAX_ENEMIES = 35"
definition fireRate :: real where "fireRate = 500"
definition enemySpawnRate :: real where "enemySpawnRate = 1200"
definition projectileLifetime :: real where "projectileLifetime = 2500"
definition dropChance :: real where "dropChance = 0.25"

definition halfWAt :: "real \<Rightarrow> real" where
  "halfWAt py = TOP_HALF_W + (BOT_HALF_W - TOP_HALF_W) * (py / canvasHeight)"

record projected =
  sx :: real
  sy :: real
  scale :: real

definition project :: "real \<Rightarrow> real \<Rightarrow> projected" where
  "project px py =
     (let t = max 0 (min 1 (py / canvasHeight));
          halfW = halfWAt py
      in \<lparr> sx = cxArena + (px - cxArena) * (halfW / BOT_HALF_W),
           sy = TOP_Y + (BOTTOM_Y - TOP_Y) * t,
           scale = halfW / BOT_HALF_W \<rparr>)"

subsection \<open>Perk application\<close>

text \<open>
  \<^verbatim>\<open>applyPerk\<close> updates the stats and two of the run flags.  The flags it reads and
  writes are gathered in a record of their own.
\<close>

record run_flags =
  perkOpen :: bool
  running :: bool
  gameOver :: bool

definition applyPerk_stats :: "string \<Rightarrow> stats \<Rightarrow> stats" where
  "applyPerk_stats pid prev =
     (if pid = ''arrow_speed'' then prev\<lparr> projectileSpeed := projectileSpeed prev * 1.1 \<rparr>
      else if pid = ''player_speed'' then prev\<lparr> playerSpeed := playerSpeed prev * 1.25 \<rparr>
      else if pid = ''arrow_count'' then prev\<lparr> arrowCount := arrowCount prev + 1 \<rparr>
      else if pid = ''pierce'' then prev\<lparr> pierce := True \<rparr>
      else if pid = ''ricochet'' then prev\<lparr> ricochet := True \<rparr>
      else prev)"

definition applyPerk :: "string \<Rightarrow> stats \<times> run_flags \<Rightarrow> stats \<times> run_flags" where
  "applyPerk pid s =
     (let st = applyPerk_stats pid (fst s);
          fl = (snd s)\<lparr> perkOpen := False \<rparr>;
          fl2 = (if \<not> gameOver fl then fl\<lparr> running := True \<rparr> else fl)
      in (st, fl2))"

subsection \<open>Collision helpers\<close>

definition circleRectCollides :: "real \<Rightarrow> real \<Rightarrow> real \<Rightarrow> Obstacle \<Rightarrow> bool" where
  "circleRectCollides cx cy cr ob =
     (let left = x ob - width ob / 2;
          right = x ob + width ob / 2;
          top = y ob - height ob / 2;
          bottom = y ob + height ob / 2;
          closestX = max left (min cx right);
          closestY = max top (min cy bottom);
          dx = cx - closestX;
          dy = cy - closestY
      in dx * dx + dy * dy < cr * cr)"

datatype axis = AxisX | AxisY

definition circleRectCollisionAxis :: "real \<Rightarrow> real \<Rightarrow> real \<Rightarrow> Obstacle \<Rightarrow> axis" where
  "circleRectCollisionAxis cx cy cr ob =
     (let left = x ob - width ob / 2;
          right = x ob + width ob / 2;
          top = y ob - height ob / 2;
          bottom = y ob + height ob / 2;
          closestX = max left (min cx right);
          closestY = max top (min cy bottom);
          dx = \<bar>cx - closestX\<bar>;
          dy = \<bar>cy - closestY\<bar>
      in if dx > dy then AxisX else AxisY)"

text \<open>The \<^verbatim>\<open>for\<close> loop over the obstacles returns at the first collision.\<close>

fun checkObstacleCollision :: "Obstacle list \<Rightarrow> real \<Rightarrow> real \<Rightarrow> real \<Rightarrow> bool" where
  "checkObstacleCollision [] cx cy cr = False"
| "checkObstacleCollision (obstacle # rest) cx cy cr =
     (if circleRectCollides cx cy cr obstacle then True
      else checkObstacleCollision rest cx cy cr)"

subsection \<open>Player advance\<close>


definition trapezoidClamp :: "real \<Rightarrow> real \<times> real \<Rightarrow> real \<times> real" where
  "trapezoidClamp cr pos =
     (let newX = fst pos;
          newY = snd pos;
          hw = halfWAt newY - cr;
          minX = cxArena - hw;
          maxX = cxArena + hw;
          newX = max minX (min maxX newX);
          newY = max cr (min (canvasHeight - cr) newY)
      in (newX, newY))"


subsection \<open>Spawning enemies\<close>

text \<open>
  The rejection-sampling loop of \<^verbatim>\<open>spawnEnemy\<close>: up to 20 attempts, each reading two
  random numbers.  It returns the accepted position, or \<open>None\<close> when the loop ends with
  \<^verbatim>\<open>validPosition\<close> still false, together with the index of the next unread random
  number.
\<close>

function spawnSample ::
  "(nat \<Rightarrow> real) \<Rightarrow> Player \<Rightarrow> Obstacle list \<Rightarrow> nat \<Rightarrow> nat \<Rightarrow> (real \<times> real) option \<times> nat" where
  "spawnSample rnd pl obstacles attempts k =
     (if attempts < 20 then
        (let py = 40 + rnd k * (canvasHeight - 80);
             hw = halfWAt py - 40;
             px = cxArena - hw + rnd (k + 1) * (hw * 2);
             dx = x pl - px;
             dy = y pl - py;
             playerDist = sqrt (dx * dx + dy * dy);
             collidesWithObstacle = checkObstacleCollision obstacles px py 12
         in if playerDist > 160 \<and> \<not> collidesWithObstacle then (Some (px, py), k + 2)
            else spawnSample rnd pl obstacles (attempts + 1) (k + 2))
      else (None, k))"
  by pat_completeness auto
termination
  by (relation "measure (\<lambda>(rnd, pl, obstacles, attempts, k). 20 - attempts)") auto

declare spawnSample.simps [simp del]

text \<open>
  \<^verbatim>\<open>spawnEnemy\<close> reads the enemy list and writes the enemy list and the time of the
  last spawn; the result is the new list, the new spawn time and the random index.
\<close>

definition spawnEnemy ::
  "(nat \<Rightarrow> real) \<Rightarrow> nat \<Rightarrow> real \<Rightarrow> Player \<Rightarrow> Obstacle list \<Rightarrow> Enemy list
     \<Rightarrow> Enemy list \<times> real \<times> nat" where
  "spawnEnemy rnd k time pl obstacles enemies =
     (if length enemies \<ge> MAX_ENEMIES then (enemies, time, k)
      else
        (let sample = spawnSample rnd pl obstacles 0 k;
             k1 = snd sample;
             px = (case fst sample of Some pos \<Rightarrow> fst pos
                   | None \<Rightarrow> canvasWidth / 2 + (rnd k1 - 0.5) * (canvasWidth - 200));
             py = (case fst sample of Some pos \<Rightarrow> snd pos
                   | None \<Rightarrow> canvasHeight / 2 + (rnd (k1 + 1) - 0.5) * (canvasHeight - 200));
             k2 = (case fst sample of Some pos \<Rightarrow> k1 | None \<Rightarrow> k1 + 2)
         in (enemies @ [\<lparr> x = px, y = py, vx = 0, vy = 0, radius = 12,
                           spawnInvulUntil = time + 300 \<rparr>], time, k2)))"

subsection \<open>Firing\<close>

text \<open>
  \<^verbatim>\<open>Math.atan2\<close> is the platform's; it is modelled by its definition on the reals.
\<close>

definition atan2 :: "real \<Rightarrow> real \<Rightarrow> real" where
  "atan2 ay ax =
     (if ax > 0 then arctan (ay / ax)
      else if ax < 0 \<and> ay \<ge> 0 then arctan (ay / ax) + pi
      else if ax < 0 then arctan (ay / ax) - pi
      else if ay > 0 then pi / 2
      else if ay < 0 then - (pi / 2)
      else 0)"

definition volleySpread :: "nat \<Rightarrow> real" where
  "volleySpread count = min 0.3 (0.08 * (real count - 1))"

definition shotOffset :: "nat \<Rightarrow> nat \<Rightarrow> real" where
  "shotOffset count i =
     (if count = 1 then 0
      else - volleySpread count / 2 + (volleySpread count / (real count - 1)) * real i)"

definition fireProjectile ::
  "real \<Rightarrow> stats \<Rightarrow> Player \<Rightarrow> Projectile list \<Rightarrow> Projectile list \<times> Player" where
  "fireProjectile time st pl prev =
     (let baseAngle = atan2 (aimY pl) (aimX pl);
          count = arrowCount st;
          newShots = map (\<lambda>i.
            (let angle = baseAngle + shotOffset count i
             in \<lparr> x = x pl, y = y pl,
                  vx = cos angle * projectileSpeed st,
                  vy = sin angle * projectileSpeed st,
                  radius = 4,
                  createdAt = time,
                  piercesLeft = (if pierce st then 1 else 0),
                  canRicochet = ricochet st \<rparr>)) [0..<count]
      in (prev @ newShots, pl\<lparr> lastFireTime := time \<rparr>))"

text \<open>The fire condition of \<^verbatim>\<open>gameLoop\<close>.\<close>

definition fireStage ::
  "real \<Rightarrow> stats \<Rightarrow> Player \<Rightarrow> Projectile list \<Rightarrow> Projectile list \<times> Player" where
  "fireStage timestamp st pl prev =
     (if vx pl = 0 \<and> vy pl = 0 \<and> timestamp - lastFireTime pl \<ge> fireRate
      then fireProjectile timestamp st pl prev
      else (prev, pl))"

subsection \<open>Spawning obstacles\<close>

text \<open>The overlap test against the existing and the new obstacles (a loop with \<^verbatim>\<open>break\<close>).\<close>

fun overlapsObstacle :: "Obstacle list \<Rightarrow> real \<Rightarrow> real \<Rightarrow> real \<Rightarrow> bool" where
  "overlapsObstacle [] px py diam = False"
| "overlapsObstacle (obstacle # rest) px py diam =
     (if \<bar>px - x obstacle\<bar> < (diam + width obstacle) / 2
         \<and> \<bar>py - y obstacle\<bar> < (diam * 2 + height obstacle) / 2
      then True
      else overlapsObstacle rest px py diam)"

function obstacleSample ::
  "(nat \<Rightarrow> real) \<Rightarrow> Player \<Rightarrow> Obstacle list \<Rightarrow> nat \<Rightarrow> nat \<Rightarrow> (real \<times> real) option \<times> nat" where
  "obstacleSample rnd pl placed attempts k =
     (if attempts < 20 then
        (let py = 50 + rnd k * (canvasHeight - 100);
             diam = radius pl * 2;
             margin = diam / 2 + 8;
             hw = halfWAt py - margin;
             px = cxArena - hw + rnd (k + 1) * (hw * 2);
             dx = x pl - px;
             dy = y pl - py;
             playerDist = sqrt (dx * dx + dy * dy)
         in if playerDist > 120 \<and> \<not> overlapsObstacle placed px py diam
            then (Some (px, py), k + 2)
            else obstacleSample rnd pl placed (attempts + 1) (k + 2))
      else (None, k))"
  by pat_completeness auto
termination
  by (relation "measure (\<lambda>(rnd, pl, placed, attempts, k). 20 - attempts)") auto

declare obstacleSample.simps [simp del]

text \<open>
  The outer loop of \<^verbatim>\<open>spawnObstacles\<close>, by the number of obstacles still to place.
  An obstacle is pushed only when its sampling ended with a valid position.
\<close>

fun obstacleLoop ::
  "(nat \<Rightarrow> real) \<Rightarrow> Player \<Rightarrow> Obstacle list \<Rightarrow> nat \<Rightarrow> Obstacle list \<Rightarrow> nat
     \<Rightarrow> Obstacle list \<times> nat" where
  "obstacleLoop rnd pl obstacles 0 newObstacles k = (newObstacles, k)"
| "obstacleLoop rnd pl obstacles (Suc n) newObstacles k =
     (let sample = obstacleSample rnd pl (obstacles @ newObstacles) 0 k;
          diam = radius pl * 2
      in obstacleLoop rnd pl obstacles n
           (case fst sample of
              Some pos \<Rightarrow> newObstacles @ [\<lparr> x = fst pos, y = snd pos, width = diam, height = diam * 2 \<rparr>]
            | None \<Rightarrow> newObstacles)
           (snd sample))"

definition spawnObstacles ::
  "(nat \<Rightarrow> real) \<Rightarrow> nat \<Rightarrow> Player \<Rightarrow> Obstacle list \<Rightarrow> Obstacle list \<times> nat" where
  "spawnObstacles rnd k pl obstacles =
     (let toAdd = 1 + \<lfloor>rnd k * 2\<rfloor>;
          placed = obstacleLoop rnd pl obstacles (nat toAdd) [] (k + 1)
      in (obstacles @ fst placed, snd placed))"

subsection \<open>Advancing the projectiles\<close>

text \<open>The two arena-edge tests of the projectile updater, on the advanced position.\<close>

definition leavesSide :: "Projectile \<Rightarrow> bool" where
  "leavesSide p =
     (let nx = x p + vx p;
          ny = y p + vy p;
          hwN = halfWAt ny - radius p
      in nx < cxArena - hwN \<or> nx > cxArena + hwN)"

definition leavesTopBottom :: "Projectile \<Rightarrow> bool" where
  "leavesTopBottom p =
     (let ny = y p + vy p
      in ny < radius p \<or> ny > canvasHeight - radius p)"

text \<open>The obstacle loop stops at the first obstacle that the circle hits.\<close>

fun firstObstacleHit :: "Obstacle list \<Rightarrow> real \<Rightarrow> real \<Rightarrow> real \<Rightarrow> Obstacle option" where
  "firstObstacleHit [] nx ny cr = None"
| "firstObstacleHit (ob # rest) nx ny cr =
     (if circleRectCollides nx ny cr ob then Some ob else firstObstacleHit rest nx ny cr)"

text \<open>
  One iteration of the loop in the updater passed to \<^verbatim>\<open>setProjectiles\<close>; \<open>None\<close> is a
  \<^verbatim>\<open>continue\<close> that drops the projectile.
\<close>

definition stepProjectile :: "real \<Rightarrow> Obstacle list \<Rightarrow> Projectile \<Rightarrow> Projectile option" where
  "stepProjectile timestamp obstacles p =
     (if timestamp - createdAt p \<ge> projectileLifetime then None
      else if leavesSide p \<and> \<not> canRicochet p then None
      else if leavesTopBottom p \<and> \<not> canRicochet p then None
      else
        (let pvx = (if leavesSide p then - vx p else vx p);
             nx = x p + pvx;
             pvy = (if leavesTopBottom p then - vy p else vy p);
             ny = y p + pvy
         in case firstObstacleHit obstacles nx ny (radius p) of
              None \<Rightarrow> Some (p\<lparr> x := nx, y := ny, vx := pvx, vy := pvy \<rparr>)
            | Some ob \<Rightarrow>
                if canRicochet p then
                  (let hitAxis = circleRectCollisionAxis nx ny (radius p) ob;
                       pvx = (if hitAxis = AxisX then - pvx else pvx);
                       pvy = (if hitAxis = AxisX then pvy else - pvy);
                       nx = x p + pvx;
                       ny = y p + pvy
                   in Some (p\<lparr> x := nx, y := ny, vx := pvx, vy := pvy \<rparr>))
                else None))"

fun advanceProjectiles :: "real \<Rightarrow> Obstacle list \<Rightarrow> Projectile list \<Rightarrow> Projectile list" where
  "advanceProjectiles timestamp obstacles [] = []"
| "advanceProjectiles timestamp obstacles (p # rest) =
     (case stepProjectile timestamp obstacles p of
        None \<Rightarrow> advanceProjectiles timestamp obstacles rest
      | Some q \<Rightarrow> q # advanceProjectiles timestamp obstacles rest)"

subsection \<open>The combat pass\<close>

text \<open>
  The combat pass of \<^verbatim>\<open>gameLoop\<close> works on the arrays of the current render.  The
  copies \<^verbatim>\<open>newEnemies\<close> and \<^verbatim>\<open>newProjectiles\<close> are shallow: they hold the same objects
  as \<^verbatim>\<open>enemies\<close> and \<^verbatim>\<open>projectiles\<close>.  They are modelled as lists of references, a
  reference being the object's index in the original array; the projectile objects,
  whose \<^verbatim>\<open>piercesLeft\<close> is decremented in place, are the store \<open>projectiles\<close>.
\<close>

record Combat =
  newGameOver :: bool
  newKills :: nat
  newDrops :: "Drop list"
  newEnemies :: "nat list"
  newProjectiles :: "nat list"
  projectiles :: "Projectile list"
  dropsChanged :: bool
  enemiesChanged :: bool
  projectilesChanged :: bool
  rndIndex :: nat

text \<open>\<^verbatim>\<open>xs.filter((_, index) => index !== i)\<close>: the list without its position \<open>i\<close>.\<close>

definition filterIndexNot :: "nat \<Rightarrow> 'a list \<Rightarrow> 'a list" where
  "filterIndexNot i xs = map snd (filter (\<lambda>entry. fst entry \<noteq> i) (enumerate 0 xs))"

text \<open>
  The body of the innermost \<^verbatim>\<open>if\<close>: enemy number \<open>e\<close> is hit by projectile number \<open>i\<close>
  of the original array.
\<close>

definition hitEnemy :: "(nat \<Rightarrow> real) \<Rightarrow> nat \<Rightarrow> Enemy \<Rightarrow> nat \<Rightarrow> Combat \<Rightarrow> Combat" where
  "hitEnemy rnd e enemy i c =
     (let projectile = projectiles c ! i;
          c = c\<lparr> newKills := newKills c + 1,
                 newEnemies := filter (\<lambda>j. j \<noteq> e) (newEnemies c),
                 enemiesChanged := True \<rparr>;
          c = (if piercesLeft projectile > 0
               then c\<lparr> projectiles :=
                      (projectiles c)[i := projectile\<lparr> piercesLeft := piercesLeft projectile - 1 \<rparr>] \<rparr>
               else c\<lparr> newProjectiles := filterIndexNot i (newProjectiles c),
                      projectilesChanged := True \<rparr>);
          c = (if rnd (rndIndex c) < dropChance
               then c\<lparr> newDrops := newDrops c @ [\<lparr> x = x enemy, y = y enemy, drop_radius = 12 \<rparr>],
                      dropsChanged := True \<rparr>
               else c)
      in c\<lparr> rndIndex := rndIndex c + 1 \<rparr>)"

text \<open>The inner loop over the projectiles, from index \<open>i\<close>; it breaks at the first hit.\<close>

function scanProjectiles :: "(nat \<Rightarrow> real) \<Rightarrow> nat \<Rightarrow> Enemy \<Rightarrow> nat \<Rightarrow> Combat \<Rightarrow> Combat" where
  "scanProjectiles rnd e enemy i c =
     (if i < length (projectiles c) then
        (let projectile = projectiles c ! i;
             pdx = x projectile - x enemy;
             pdy = y projectile - y enemy;
             pDistance = sqrt (pdx * pdx + pdy * pdy)
         in if pDistance < radius projectile + radius enemy then hitEnemy rnd e enemy i c
            else scanProjectiles rnd e enemy (i + 1) c)
      else c)"
  by pat_completeness auto
termination
  by (relation "measure (\<lambda>(rnd, e, enemy, i, c). length (projectiles c) - i)") auto

declare scanProjectiles.simps [simp del]

text \<open>
  The outer loop over the enemies, each paired with its index in the array.  An enemy in
  its invulnerability window is skipped; contact with the player ends the loop.
\<close>

fun enemyLoop ::
  "(nat \<Rightarrow> real) \<Rightarrow> real \<Rightarrow> Player \<Rightarrow> (nat \<times> Enemy) list \<Rightarrow> Combat \<Rightarrow> Combat" where
  "enemyLoop rnd timestamp pl [] c = c"
| "enemyLoop rnd timestamp pl (entry # rest) c =
     (let enemy = snd entry in
      if timestamp < spawnInvulUntil enemy then enemyLoop rnd timestamp pl rest c
      else
        (let dx = x pl - x enemy;
             dy = y pl - y enemy;
             distance = sqrt (dx * dx + dy * dy)
         in if distance < radius pl + radius enemy then c\<lparr> newGameOver := True \<rparr>
            else enemyLoop rnd timestamp pl rest (scanProjectiles rnd (fst entry) enemy 0 c)))"

definition combatPass ::
  "(nat \<Rightarrow> real) \<Rightarrow> nat \<Rightarrow> real \<Rightarrow> Player \<Rightarrow> Enemy list \<Rightarrow> Projectile list \<Rightarrow> Drop list
     \<Rightarrow> nat \<Rightarrow> bool \<Rightarrow> Combat" where
  "combatPass rnd k timestamp pl enemies projs drops kills over =
     enemyLoop rnd timestamp pl (enumerate 0 enemies)
       \<lparr> newGameOver = over, newKills = kills, newDrops = drops,
         newEnemies = [0..<length enemies], newProjectiles = [0..<length projs],
         projectiles = projs,
         dropsChanged = False, enemiesChanged = False, projectilesChanged = False,
         rndIndex = k \<rparr>"

text \<open>The arrays that \<^verbatim>\<open>setEnemies(newEnemies)\<close> and \<^verbatim>\<open>setProjectiles(newProjectiles)\<close> store.\<close>

definition storedProjectiles :: "Combat \<Rightarrow> Projectile list" where
  "storedProjectiles c = map (\<lambda>i. projectiles c ! i) (newProjectiles c)"

definition storedEnemies :: "Enemy list \<Rightarrow> Combat \<Rightarrow> Enemy list" where
  "storedEnemies enemies c = map (\<lambda>e. enemies ! e) (newEnemies c)"

subsection \<open>The milestone block\<close>

definition pool :: "perk list" where
  "pool =
     [\<lparr> perk_id = ''arrow_speed'', perk_label = ''Increase arrow speed by 10%'' \<rparr>,
      \<lparr> perk_id = ''player_speed'', perk_label = ''Increase player movement speed by 25%'' \<rparr>,
      \<lparr> perk_id = ''arrow_count'', perk_label = ''Increase amount of arrows +1'' \<rparr>,
      \<lparr> perk_id = ''pierce'', perk_label = ''Allow arrows to pierce first enemy'' \<rparr>,
      \<lparr> perk_id = ''ricochet'', perk_label = ''Allow arrows to ricochet off borders'' \<rparr>]"

datatype js_error = TypeError

text \<open>
  The loop that draws three perks.  It ends only when three different perks have been
  drawn, so it may run forever: \<open>None\<close> is a loop that never returns.  An index outside
  the pool makes \<^verbatim>\<open>c\<close> undefined, and reading \<^verbatim>\<open>c.id\<close> throws.
\<close>

partial_function (option) pickLoop ::
  "(nat \<Rightarrow> real) \<Rightarrow> nat \<Rightarrow> perk list \<Rightarrow> (js_error + perk list \<times> nat) option" where
  "pickLoop rnd k picks =
     (if length picks < 3 then
        (if 0 \<le> \<lfloor>rnd k * real (length pool)\<rfloor> \<and> \<lfloor>rnd k * real (length pool)\<rfloor> < int (length pool)
         then
           (if find (\<lambda>p. perk_id p = perk_id (pool ! nat \<lfloor>rnd k * real (length pool)\<rfloor>)) picks = None
            then pickLoop rnd (k + 1) (picks @ [pool ! nat \<lfloor>rnd k * real (length pool)\<rfloor>])
            else pickLoop rnd (k + 1) picks)
         else Some (Inl TypeError))
      else Some (Inr (picks, k)))"

text \<open>The decimal digits of a number, as the template string prints the hue.\<close>

fun decimal :: "nat \<Rightarrow> string" where
  "decimal n =
     (if n < 10 then [''0123456789'' ! n]
      else decimal (n div 10) @ [''0123456789'' ! (n mod 10)])"

record GroundColors =
  ground_top :: string
  ground_bottom :: string

definition pickRandomGroundColors :: "real \<Rightarrow> GroundColors" where
  "pickRandomGroundColors r =
     (let hue = \<lfloor>r * 360\<rfloor>;
          shown = (if hue < 0 then ''-'' @ decimal (nat (- hue)) else decimal (nat hue))
      in \<lparr> ground_top = ''hsl('' @ shown @ '' 55% 65%)'',
           ground_bottom = ''hsl('' @ shown @ '' 55% 45%)'' \<rparr>)"

text \<open>The run state that the milestone block reads and writes.\<close>

record Run = run_flags +
  perkChoices :: "perk list"
  nextMilestone :: nat
  enemySpeed :: real
  groundColors :: GroundColors
  obstacles :: "Obstacle list"

definition milestoneBlock ::
  "(nat \<Rightarrow> real) \<Rightarrow> nat \<Rightarrow> nat \<Rightarrow> Player \<Rightarrow> Run \<Rightarrow> (js_error + Run \<times> nat) option" where
  "milestoneBlock rnd k kills pl s =
     (if kills \<ge> nextMilestone s \<and> \<not> perkOpen s then
        (case pickLoop rnd k [] of
           None \<Rightarrow> None
         | Some (Inl err) \<Rightarrow> Some (Inl err)
         | Some (Inr drawn) \<Rightarrow>
             (let colors = pickRandomGroundColors (rnd (snd drawn));
                  placed = spawnObstacles rnd (snd drawn + 1) pl (obstacles s)
              in Some (Inr (s\<lparr> perkChoices := fst drawn,
                               perkOpen := True,
                               running := False,
                               groundColors := colors,
                               enemySpeed := enemySpeed s * 1.1,
                               nextMilestone := nextMilestone s + 10,
                               obstacles := fst placed \<rparr>, snd placed))))
      else Some (Inr (s, k)))"

section \<open>Properties\<close>

subsection \<open>Projection scale\<close>

lemma halfWAt_mono: "a \<le> b \<Longrightarrow> halfWAt a \<le> halfWAt b"
  by (simp add: halfWAt_def TOP_HALF_W_def BOT_HALF_W_def canvasWidth_def canvasHeight_def)

text \<open>
  Claim C9.  For every horizontal coordinate and every pair of rows \<open>y1 \<le> y2\<close> inside
  \<open>[0, canvasHeight]\<close>, the scale returned by \<open>project\<close> at \<open>y1\<close> is at most the scale
  returned at \<open>y2\<close>: the scale is monotonically non-decreasing in the row.
\<close>

theorem project_scale_mono:
  assumes "0 \<le> y1" and "y1 \<le> y2" and "y2 \<le> canvasHeight"
  shows "scale (project px y1) \<le> scale (project px y2)"
proof -
  have "halfWAt y1 \<le> halfWAt y2" using assms(2) by (rule halfWAt_mono)
  moreover have "0 < BOT_HALF_W" by (simp add: BOT_HALF_W_def canvasWidth_def)
  ultimately have "halfWAt y1 / BOT_HALF_W \<le> halfWAt y2 / BOT_HALF_W"
    by (simp add: divide_right_mono)
  then show ?thesis by (simp add: project_def Let_def)
qed

theorem project_scale_mono_witness:
  "(0::real) \<le> 100 \<and> (100::real) \<le> 500 \<and> 500 \<le> canvasHeight
   \<and> scale (project 37 100) \<le> scale (project 37 500)"
proof -
  have h: "(0::real) \<le> 100" "(100::real) \<le> 500" "500 \<le> canvasHeight"
    by (simp_all add: canvasHeight_def)
  show ?thesis using h project_scale_mono [OF h, of 37] by simp
qed

subsection \<open>Perk application\<close>

text \<open>
  Claim C6.  \<open>applyPerk\<close> maps each catalog id to its stated effect and changes no other
  stats field: \<open>arrow_speed\<close> multiplies the projectile speed by 1.1, \<open>player_speed\<close>
  multiplies the player speed by 1.25, \<open>arrow_count\<close> adds 1 to the arrow count,
  \<open>pierce\<close> and \<open>ricochet\<close> set their flag.  Every call closes the perk prompt and sets
  the run to running unless the run is over (then the running flag is left as it was).
\<close>

theorem applyPerk_catalog:
  "fst (applyPerk ''arrow_speed'' (st, fl)) = st\<lparr> projectileSpeed := projectileSpeed st * 1.1 \<rparr>
   \<and> fst (applyPerk ''player_speed'' (st, fl)) = st\<lparr> playerSpeed := playerSpeed st * 1.25 \<rparr>
   \<and> fst (applyPerk ''arrow_count'' (st, fl)) = st\<lparr> arrowCount := arrowCount st + 1 \<rparr>
   \<and> fst (applyPerk ''pierce'' (st, fl)) = st\<lparr> pierce := True \<rparr>
   \<and> fst (applyPerk ''ricochet'' (st, fl)) = st\<lparr> ricochet := True \<rparr>
   \<and> snd (applyPerk pid (st, fl)) =
       fl\<lparr> perkOpen := False, running := (if gameOver fl then running fl else True) \<rparr>"
  by (simp add: applyPerk_def applyPerk_stats_def Let_def)

text \<open>
  Claim C10.  With an id outside the catalog, \<open>applyPerk\<close> leaves every stats field
  unchanged, and still closes the perk prompt and, when the run is not over, sets the
  run to running.
\<close>

theorem applyPerk_unknown_id:
  assumes "pid \<notin> {''arrow_speed'', ''player_speed'', ''arrow_count'', ''pierce'', ''ricochet''}"
  shows "fst (applyPerk pid (st, fl)) = st
     \<and> perkOpen (snd (applyPerk pid (st, fl))) = False
     \<and> gameOver (snd (applyPerk pid (st, fl))) = gameOver fl
     \<and> running (snd (applyPerk pid (st, fl))) = (if gameOver fl then running fl else True)"
  using assms by (simp add: applyPerk_def applyPerk_stats_def Let_def)

theorem applyPerk_unknown_id_witness:
  "fst (applyPerk ''heal''
      (\<lparr> playerSpeed = 3.12, projectileSpeed = 6, arrowCount = 1, pierce = False, ricochet = False \<rparr>,
       \<lparr> perkOpen = True, running = False, gameOver = False \<rparr>))
     = \<lparr> playerSpeed = 3.12, projectileSpeed = 6, arrowCount = 1, pierce = False, ricochet = False \<rparr>
   \<and> running (snd (applyPerk ''heal''
      (\<lparr> playerSpeed = 3.12, projectileSpeed = 6, arrowCount = 1, pierce = False, ricochet = False \<rparr>,
       \<lparr> perkOpen = True, running = False, gameOver = False \<rparr>))) = True"
proof -
  have h: "''heal'' \<notin> {''arrow_speed'', ''player_speed'', ''arrow_count'', ''pierce'', ''ricochet''}"
    by simp
  show ?thesis
    using applyPerk_unknown_id [OF h,
      of "\<lparr> playerSpeed = 3.12, projectileSpeed = 6, arrowCount = 1, pierce = False, ricochet = False \<rparr>"
         "\<lparr> perkOpen = True, running = False, gameOver = False \<rparr>"]
    by simp
qed

subsection \<open>Player advance\<close>

lemmas arena_defs =
  halfWAt_def TOP_HALF_W_def BOT_HALF_W_def canvasWidth_def canvasHeight_def cxArena_def



lemma trapezoidClamp_row:
  assumes "cr \<le> snd pos" and "snd pos \<le> canvasHeight - cr"
  shows "snd (trapezoidClamp cr pos) = snd pos"
  using assms by (auto simp: trapezoidClamp_def Let_def)






subsection \<open>Projectiles at the arena edge\<close>

text \<open>
  Claim C8, as stated: a ricochet-enabled projectile whose advanced position leaves the
  arena through an edge has the velocity component perpendicular to that edge inverted,
  is re-advanced with the inverted velocity, and is kept.  The first two parts fail
  when the re-advanced position hits an obstacle: the obstacle bounce that follows in
  the same iteration inverts the component again.  Here a projectile leaves through the
  right side next to an obstacle and is stored with its velocity unchanged, at the
  position outside the arena.
\<close>

theorem stepProjectile_counterexample:
  "(let ob = \<lparr> x = 892, y = 360, width = 28, height = 56 \<rparr>;
        p = \<lparr> x = 915, y = 360, vx = 6, vy = 0, radius = 4,
              createdAt = 0, piercesLeft = 0, canRicochet = True \<rparr>
    in leavesSide p \<and> 100 - createdAt p < projectileLifetime
       \<and> stepProjectile 100 [ob] p = Some (p\<lparr> x := 921, y := 360, vx := 6, vy := 0 \<rparr>))"
  by (simp add: Let_def leavesSide_def leavesTopBottom_def stepProjectile_def arena_defs
      projectileLifetime_def circleRectCollides_def circleRectCollisionAxis_def)

lemma advanceProjectiles_keeps:
  "p \<in> set ps \<Longrightarrow> stepProjectile timestamp obs p = Some q
     \<Longrightarrow> q \<in> set (advanceProjectiles timestamp obs ps)"
  by (induction ps) (auto split: option.splits)

text \<open>
  Claim C8, amended.  A ricochet-enabled projectile whose lifetime has not expired is
  kept by the updater in every case.  With \<open>bvx\<close> the horizontal velocity inverted iff
  the advanced position leaves through a slanted side, and \<open>bvy\<close> the vertical velocity
  inverted iff it leaves through the top or bottom: when the position re-advanced with
  \<open>(bvx, bvy)\<close> hits no obstacle, the projectile is stored with that velocity at that
  position; when it hits an obstacle, the component of the penetration axis is inverted
  once more and the position is advanced again from the old position.
\<close>

theorem stepProjectile_ricochet:
  assumes "canRicochet p" and "timestamp - createdAt p < projectileLifetime"
  shows "\<exists>q. stepProjectile timestamp obs p = Some q
      \<and> (p \<in> set ps \<longrightarrow> q \<in> set (advanceProjectiles timestamp obs ps))
      \<and> (let bvx = (if leavesSide p then - vx p else vx p);
              bvy = (if leavesTopBottom p then - vy p else vy p)
          in (firstObstacleHit obs (x p + bvx) (y p + bvy) (radius p) = None
                \<longrightarrow> vx q = bvx \<and> vy q = bvy \<and> x q = x p + bvx \<and> y q = y p + bvy)
           \<and> (\<forall>ob. firstObstacleHit obs (x p + bvx) (y p + bvy) (radius p) = Some ob
                \<longrightarrow> (let hitAxis = circleRectCollisionAxis (x p + bvx) (y p + bvy) (radius p) ob
                     in vx q = (if hitAxis = AxisX then - bvx else bvx)
                      \<and> vy q = (if hitAxis = AxisX then bvy else - bvy)
                      \<and> x q = x p + vx q \<and> y q = y p + vy q)))"
proof -
  define bvx where "bvx = (if leavesSide p then - vx p else vx p)"
  define bvy where "bvy = (if leavesTopBottom p then - vy p else vy p)"
  have live: "\<not> timestamp - createdAt p \<ge> projectileLifetime" using assms(2) by simp
  show ?thesis
  proof (cases "firstObstacleHit obs (x p + bvx) (y p + bvy) (radius p)")
    case None
    then have q: "stepProjectile timestamp obs p
        = Some (p\<lparr> x := x p + bvx, y := y p + bvy, vx := bvx, vy := bvy \<rparr>)"
      using assms(1) live by (simp add: stepProjectile_def Let_def bvx_def bvy_def)
    show ?thesis
      unfolding Let_def bvx_def [symmetric] bvy_def [symmetric]
      using q None advanceProjectiles_keeps [OF _ q, of ps] by simp
  next
    case (Some ob)
    define hitAxis where
      "hitAxis = circleRectCollisionAxis (x p + bvx) (y p + bvy) (radius p) ob"
    define pvx where "pvx = (if hitAxis = AxisX then - bvx else bvx)"
    define pvy where "pvy = (if hitAxis = AxisX then bvy else - bvy)"
    have q: "stepProjectile timestamp obs p
        = Some (p\<lparr> x := x p + pvx, y := y p + pvy, vx := pvx, vy := pvy \<rparr>)"
      using assms(1) live Some
      by (simp add: stepProjectile_def Let_def bvx_def bvy_def pvx_def pvy_def hitAxis_def)
    show ?thesis
      unfolding Let_def bvx_def [symmetric] bvy_def [symmetric]
      using q Some advanceProjectiles_keeps [OF _ q, of ps]
      by (simp add: pvx_def pvy_def hitAxis_def)
  qed
qed

theorem stepProjectile_ricochet_witness:
  "(let p = \<lparr> x = 915, y = 360, vx = 6, vy = 0, radius = 4,
              createdAt = 0, piercesLeft = 0, canRicochet = True \<rparr>;
        ob = \<lparr> x = 892, y = 360, width = 28, height = 56 \<rparr>
    in leavesSide p
     \<and> stepProjectile 100 [] p = Some (p\<lparr> x := 909, y := 360, vx := - 6, vy := 0 \<rparr>)
     \<and> p\<lparr> x := 909, y := 360, vx := - 6, vy := 0 \<rparr> \<in> set (advanceProjectiles 100 [] [p])
     \<and> firstObstacleHit [ob] 909 360 4 = Some ob
     \<and> (\<exists>q. stepProjectile 100 [ob] p = Some q \<and> vx q = 6 \<and> x q = 921))"
proof -
  define p :: Projectile where
    "p = \<lparr> x = 915, y = 360, vx = 6, vy = 0, radius = 4,
           createdAt = 0, piercesLeft = 0, canRicochet = True \<rparr>"
  define ob :: Obstacle where "ob = \<lparr> x = 892, y = 360, width = 28, height = 56 \<rparr>"
  have h: "canRicochet p" "100 - createdAt p < projectileLifetime"
    by (simp_all add: p_def projectileLifetime_def)
  have side: "leavesSide p" and calm: "\<not> leavesTopBottom p"
    by (simp_all add: p_def leavesSide_def leavesTopBottom_def Let_def arena_defs)
  have listed: "p \<in> set [p]" by simp
  from stepProjectile_ricochet [OF h, of "[]" "[p]"] side calm listed
  obtain q where q: "stepProjectile 100 [] p = Some q"
    and kept: "q \<in> set (advanceProjectiles 100 [] [p])"
    and v: "vx q = - vx p" "vy q = vy p" "x q = x p + - vx p" "y q = y p + vy p"
    by (auto simp: Let_def)
  have same: "createdAt q = createdAt p \<and> piercesLeft q = piercesLeft p
      \<and> canRicochet q = canRicochet p \<and> radius q = radius p"
    using q by (auto simp: stepProjectile_def Let_def split: if_splits)
  have free: "q = p\<lparr> x := 909, y := 360, vx := - 6, vy := 0 \<rparr>"
    using v same by (simp add: p_def)
  have collide: "circleRectCollides (x p - vx p) (y p + vy p) (radius p) ob"
    by (simp add: p_def ob_def circleRectCollides_def Let_def)
  have ax: "circleRectCollisionAxis (x p - vx p) (y p + vy p) (radius p) ob = AxisX"
    by (simp add: p_def ob_def circleRectCollisionAxis_def Let_def)
  from stepProjectile_ricochet [OF h, of "[ob]" "[p]"] side calm collide ax
  obtain r where r: "stepProjectile 100 [ob] p = Some r" "vx r = vx p" "x r = x p + vx r"
    by (auto simp: Let_def)
  then have bounced: "\<exists>q. stepProjectile 100 [ob] p = Some q \<and> vx q = 6 \<and> x q = 921"
    by (simp add: p_def)
  have hit': "firstObstacleHit [ob] 909 360 4 = Some ob"
    using collide by (simp add: p_def)
  show ?thesis
    unfolding Let_def p_def [symmetric] ob_def [symmetric]
    using side q kept bounced hit' by (simp add: free)
qed

subsection \<open>Firing a volley\<close>

lemma shotOffset_symmetric:
  assumes "i < n"
  shows "shotOffset n i + shotOffset n (n - 1 - i) = 0"
proof (cases "n = 1")
  case True
  then show ?thesis by (simp add: shotOffset_def)
next
  case False
  define s where "s = volleySpread n"
  define d where "d = real n - 1"
  from False assms have nz: "d \<noteq> 0" by (simp add: d_def)
  have idx: "real (n - 1 - i) = d - real i" using assms by (simp add: d_def of_nat_diff)
  have o1: "shotOffset n i = - s / 2 + (s / d) * real i"
    using False by (simp add: shotOffset_def s_def d_def)
  have o2: "shotOffset n (n - 1 - i) = - s / 2 + (s / d) * (d - real i)"
    using False unfolding idx [symmetric] by (simp add: shotOffset_def s_def d_def)
  have "shotOffset n i + shotOffset n (n - 1 - i) = - s + (s / d) * d"
    unfolding o1 o2 by (simp add: right_diff_distrib)
  also have "\<dots> = 0" using nz by simp
  finally show ?thesis .
qed

lemma shotOffset_uniform:
  assumes "Suc i < n"
  shows "shotOffset n (Suc i) - shotOffset n i = volleySpread n / (real n - 1)"
  using assms by (simp add: shotOffset_def algebra_simps add_divide_distrib)

lemma shotOffset_total:
  assumes "0 < n"
  shows "shotOffset n (n - 1) - shotOffset n 0 = volleySpread n"
proof (cases "n = 1")
  case True
  then show ?thesis by (simp add: shotOffset_def volleySpread_def)
next
  case False
  with assms have "real n - 1 \<noteq> 0" by simp
  moreover have "real (n - 1) = real n - 1" using assms by (simp add: of_nat_diff)
  ultimately show ?thesis using False by (simp add: shotOffset_def)
qed

lemma shot_speed: "(cos (a::real) * s)\<^sup>2 + (sin a * s)\<^sup>2 = s\<^sup>2"
proof -
  have "(cos a * s)\<^sup>2 + (sin a * s)\<^sup>2 = (cos a)\<^sup>2 * s\<^sup>2 + (sin a)\<^sup>2 * s\<^sup>2"
    by (simp only: power_mult_distrib)
  also have "\<dots> = ((cos a)\<^sup>2 + (sin a)\<^sup>2) * s\<^sup>2"
    by (simp only: distrib_right)
  also have "\<dots> = s\<^sup>2" by simp
  finally show ?thesis .
qed

text \<open>
  Claim C5.  In a tick in which the player's velocity is zero in both axes and at least
  500 ms have passed since the last shot, the fire stage appends one volley of exactly
  \<open>arrowCount\<close> projectiles and sets \<open>lastFireTime\<close> to the tick's timestamp.  Shot \<open>i\<close>
  flies at the angle \<open>atan2 aimY aimX + shotOffset arrowCount i\<close> with speed
  \<open>projectileSpeed\<close>; the offsets are symmetric about 0, equally spaced, and span
  \<open>min 0.3 (0.08 * (arrowCount - 1))\<close>; \<open>piercesLeft\<close> is 1 iff \<open>pierce\<close> is set (else 0) and
  \<open>canRicochet\<close> is the \<open>ricochet\<close> flag.
\<close>

theorem fireStage_volley:
  assumes "vx pl = 0" and "vy pl = 0" and "timestamp - lastFireTime pl \<ge> fireRate"
  shows "\<exists>newShots.
       fst (fireStage timestamp st pl prev) = prev @ newShots
     \<and> length newShots = arrowCount st
     \<and> snd (fireStage timestamp st pl prev) = pl\<lparr> lastFireTime := timestamp \<rparr>
     \<and> (\<forall>i < arrowCount st.
           vx (newShots ! i) = cos (atan2 (aimY pl) (aimX pl) + shotOffset (arrowCount st) i) * projectileSpeed st
         \<and> vy (newShots ! i) = sin (atan2 (aimY pl) (aimX pl) + shotOffset (arrowCount st) i) * projectileSpeed st
         \<and> (vx (newShots ! i))\<^sup>2 + (vy (newShots ! i))\<^sup>2 = (projectileSpeed st)\<^sup>2
         \<and> x (newShots ! i) = x pl \<and> y (newShots ! i) = y pl
         \<and> createdAt (newShots ! i) = timestamp
         \<and> piercesLeft (newShots ! i) = (if pierce st then 1 else 0)
         \<and> canRicochet (newShots ! i) = ricochet st
         \<and> shotOffset (arrowCount st) i + shotOffset (arrowCount st) (arrowCount st - 1 - i) = 0
         \<and> (Suc i < arrowCount st \<longrightarrow>
              shotOffset (arrowCount st) (Suc i) - shotOffset (arrowCount st) i
                = volleySpread (arrowCount st) / (real (arrowCount st) - 1))
         \<and> shotOffset (arrowCount st) (arrowCount st - 1) - shotOffset (arrowCount st) 0
              = min 0.3 (0.08 * (real (arrowCount st) - 1)))"
proof -
  define n where "n = arrowCount st"
  define base where "base = atan2 (aimY pl) (aimX pl)"
  define shot where "shot = (\<lambda>i.
      \<lparr> x = x pl, y = y pl,
        vx = cos (base + shotOffset n i) * projectileSpeed st,
        vy = sin (base + shotOffset n i) * projectileSpeed st,
        radius = 4, createdAt = timestamp,
        piercesLeft = (if pierce st then 1 else 0),
        canRicochet = ricochet st \<rparr>)"
  define newShots where "newShots = map shot [0..<n]"
  have stage: "fireStage timestamp st pl prev = (prev @ newShots, pl\<lparr> lastFireTime := timestamp \<rparr>)"
    using assms
    by (simp add: fireStage_def fireProjectile_def Let_def newShots_def shot_def n_def base_def)
  have len: "length newShots = n" by (simp add: newShots_def)
  have nth: "newShots ! i = shot i" if "i < n" for i
    using that by (simp add: newShots_def)
  have each: "vx (newShots ! i) = cos (base + shotOffset n i) * projectileSpeed st
         \<and> vy (newShots ! i) = sin (base + shotOffset n i) * projectileSpeed st
         \<and> (vx (newShots ! i))\<^sup>2 + (vy (newShots ! i))\<^sup>2 = (projectileSpeed st)\<^sup>2
         \<and> x (newShots ! i) = x pl \<and> y (newShots ! i) = y pl
         \<and> createdAt (newShots ! i) = timestamp
         \<and> piercesLeft (newShots ! i) = (if pierce st then 1 else 0)
         \<and> canRicochet (newShots ! i) = ricochet st
         \<and> shotOffset n i + shotOffset n (n - 1 - i) = 0
         \<and> (Suc i < n \<longrightarrow> shotOffset n (Suc i) - shotOffset n i = volleySpread n / (real n - 1))
         \<and> shotOffset n (n - 1) - shotOffset n 0 = min 0.3 (0.08 * (real n - 1))"
    if "i < n" for i
  proof -
    from that have "0 < n" by simp
    then have "shotOffset n (n - 1) - shotOffset n 0 = min 0.3 (0.08 * (real n - 1))"
      using shotOffset_total [of n] by (simp add: volleySpread_def)
    then show ?thesis
      using that shotOffset_symmetric [of i n] shotOffset_uniform [of i n]
      by (simp add: nth shot_def shot_speed)
  qed
  from each have every: "\<forall>i<n. vx (newShots ! i) = cos (base + shotOffset n i) * projectileSpeed st
         \<and> vy (newShots ! i) = sin (base + shotOffset n i) * projectileSpeed st
         \<and> (vx (newShots ! i))\<^sup>2 + (vy (newShots ! i))\<^sup>2 = (projectileSpeed st)\<^sup>2
         \<and> x (newShots ! i) = x pl \<and> y (newShots ! i) = y pl
         \<and> createdAt (newShots ! i) = timestamp
         \<and> piercesLeft (newShots ! i) = (if pierce st then 1 else 0)
         \<and> canRicochet (newShots ! i) = ricochet st
         \<and> shotOffset n i + shotOffset n (n - 1 - i) = 0
         \<and> (Suc i < n \<longrightarrow> shotOffset n (Suc i) - shotOffset n i = volleySpread n / (real n - 1))
         \<and> shotOffset n (n - 1) - shotOffset n 0 = min 0.3 (0.08 * (real n - 1))"
    by blast
  show ?thesis
    unfolding n_def [symmetric] base_def [symmetric] stage fst_conv snd_conv
    using len every by blast
qed


theorem fireStage_volley_witness:
  "(let st = initialStats\<lparr> arrowCount := 3, pierce := True \<rparr>;
        after = fireStage 600 st initialPlayer []
    in length (fst after) = 3
     \<and> lastFireTime (snd after) = 600
     \<and> piercesLeft (fst after ! 0) = 1
     \<and> shotOffset 3 0 + shotOffset 3 2 = 0
     \<and> shotOffset 3 1 - shotOffset 3 0 = 0.08
     \<and> shotOffset 3 2 - shotOffset 3 0 = 0.16)"
proof -
  define st where "st = initialStats\<lparr> arrowCount := 3, pierce := True \<rparr>"
  have h: "vx initialPlayer = 0" "vy initialPlayer = 0"
    "600 - lastFireTime initialPlayer \<ge> fireRate"
    by (simp_all add: initialPlayer_def fireRate_def)
  have n: "arrowCount st = 3" and pc: "pierce st" by (simp_all add: st_def)
  from fireStage_volley [OF h, of st "[]"] obtain newShots where
    a: "fst (fireStage 600 st initialPlayer []) = [] @ newShots"
    and b: "length newShots = arrowCount st"
    and c: "snd (fireStage 600 st initialPlayer []) = initialPlayer\<lparr> lastFireTime := 600 \<rparr>"
    and d: "\<forall>i < arrowCount st. piercesLeft (newShots ! i) = (if pierce st then 1 else 0)
         \<and> shotOffset (arrowCount st) i + shotOffset (arrowCount st) (arrowCount st - 1 - i) = 0
         \<and> (Suc i < arrowCount st \<longrightarrow>
              shotOffset (arrowCount st) (Suc i) - shotOffset (arrowCount st) i
                = volleySpread (arrowCount st) / (real (arrowCount st) - 1))
         \<and> shotOffset (arrowCount st) (arrowCount st - 1) - shotOffset (arrowCount st) 0
              = min 0.3 (0.08 * (real (arrowCount st) - 1))"
    by blast
  from d [rule_format, of 0] n pc
  have "piercesLeft (newShots ! 0) = 1" "shotOffset 3 0 + shotOffset 3 2 = 0"
    "shotOffset 3 1 - shotOffset 3 0 = 0.08" "shotOffset 3 2 - shotOffset 3 0 = 0.16"
    by (simp_all add: volleySpread_def)
  then show ?thesis
    unfolding Let_def st_def [symmetric] using a b c n by simp
qed

subsection \<open>Rejection sampling out of budget\<close>

lemma obstacleSample_centre:
  "obstacleSample (\<lambda>_. 1 / 2) initialPlayer placed attempts k = (None, k + 2 * (20 - attempts))"
proof (induction "20 - attempts" arbitrary: attempts k)
  case 0
  then show ?case by (subst obstacleSample.simps) simp
next
  case (Suc m)
  then have lt: "attempts < 20" and m: "m = 20 - (attempts + 1)" by simp_all
  have "obstacleSample (\<lambda>_. 1 / 2) initialPlayer placed attempts k
      = obstacleSample (\<lambda>_. 1 / 2) initialPlayer placed (attempts + 1) (k + 2)"
    using lt by (subst obstacleSample.simps) (simp add: Let_def arena_defs initialPlayer_def)
  also have "\<dots> = (None, (k + 2) + 2 * (20 - (attempts + 1)))"
    using Suc.hyps(1) [OF m] .
  also have "\<dots> = (None, k + 2 * (20 - attempts))" using lt by simp
  finally show ?case .
qed

lemma spawnSample_centre:
  "spawnSample (\<lambda>_. 1 / 2) initialPlayer [] attempts k = (None, k + 2 * (20 - attempts))"
proof (induction "20 - attempts" arbitrary: attempts k)
  case 0
  then show ?case by (subst spawnSample.simps) simp
next
  case (Suc m)
  then have lt: "attempts < 20" and m: "m = 20 - (attempts + 1)" by simp_all
  have "spawnSample (\<lambda>_. 1 / 2) initialPlayer [] attempts k
      = spawnSample (\<lambda>_. 1 / 2) initialPlayer [] (attempts + 1) (k + 2)"
    using lt by (subst spawnSample.simps) (simp add: Let_def arena_defs initialPlayer_def)
  also have "\<dots> = (None, (k + 2) + 2 * (20 - (attempts + 1)))"
    using Suc.hyps(1) [OF m] .
  also have "\<dots> = (None, k + 2 * (20 - attempts))" using lt by simp
  finally show ?case .
qed

lemma spawnSample_exhausted:
  "fst (spawnSample rnd pl obs attempts k) = None \<Longrightarrow> attempts \<le> 20
     \<Longrightarrow> snd (spawnSample rnd pl obs attempts k) = k + 2 * (20 - attempts)"
proof (induction "20 - attempts" arbitrary: attempts k)
  case 0
  then show ?case by (subst spawnSample.simps) simp
next
  case (Suc m)
  then have lt: "attempts < 20" and m: "m = 20 - (attempts + 1)" by simp_all
  define py where "py = 40 + rnd k * (canvasHeight - 80)"
  define px where "px = cxArena - (halfWAt py - 40) + rnd (k + 1) * ((halfWAt py - 40) * 2)"
  define ok where "ok \<longleftrightarrow> sqrt ((x pl - px) * (x pl - px) + (y pl - py) * (y pl - py)) > 160
      \<and> \<not> checkObstacleCollision obs px py 12"
  have unfold: "spawnSample rnd pl obs attempts k
      = (if ok then (Some (px, py), k + 2) else spawnSample rnd pl obs (attempts + 1) (k + 2))"
    using lt by (subst spawnSample.simps) (simp add: Let_def ok_def px_def py_def)
  from Suc.prems(1) have nok: "\<not> ok" unfolding unfold by (auto split: if_splits)
  have step: "spawnSample rnd pl obs attempts k = spawnSample rnd pl obs (attempts + 1) (k + 2)"
    using nok unfold by simp
  have "snd (spawnSample rnd pl obs (attempts + 1) (k + 2)) = (k + 2) + 2 * (20 - (attempts + 1))"
    using Suc.hyps(1) [OF m] Suc.prems(1) lt unfolding step by simp
  then show ?case using lt unfolding step by simp
qed

lemma obstacleSample_exhausted:
  "fst (obstacleSample rnd pl placed attempts k) = None \<Longrightarrow> attempts \<le> 20
     \<Longrightarrow> snd (obstacleSample rnd pl placed attempts k) = k + 2 * (20 - attempts)"
proof (induction "20 - attempts" arbitrary: attempts k)
  case 0
  then show ?case by (subst obstacleSample.simps) simp
next
  case (Suc m)
  then have lt: "attempts < 20" and m: "m = 20 - (attempts + 1)" by simp_all
  define py where "py = 50 + rnd k * (canvasHeight - 100)"
  define hw where "hw = halfWAt py - (radius pl * 2 / 2 + 8)"
  define px where "px = cxArena - hw + rnd (k + 1) * (hw * 2)"
  define ok where "ok \<longleftrightarrow> sqrt ((x pl - px) * (x pl - px) + (y pl - py) * (y pl - py)) > 120
      \<and> \<not> overlapsObstacle placed px py (radius pl * 2)"
  have unfold: "obstacleSample rnd pl placed attempts k
      = (if ok then (Some (px, py), k + 2) else obstacleSample rnd pl placed (attempts + 1) (k + 2))"
    using lt by (subst obstacleSample.simps) (simp add: Let_def ok_def px_def hw_def py_def)
  from Suc.prems(1) have nok: "\<not> ok" unfolding unfold by (auto split: if_splits)
  have step: "obstacleSample rnd pl placed attempts k
      = obstacleSample rnd pl placed (attempts + 1) (k + 2)"
    using nok unfold by simp
  have "snd (obstacleSample rnd pl placed (attempts + 1) (k + 2))
      = (k + 2) + 2 * (20 - (attempts + 1))"
    using Suc.hyps(1) [OF m] Suc.prems(1) lt unfolding step by simp
  then show ?case using lt unfolding step by simp
qed

lemma obstacleLoop_length:
  "length (fst (obstacleLoop rnd pl obs n newObstacles k)) \<le> length newObstacles + n"
proof (induction n arbitrary: newObstacles k)
  case 0
  then show ?case by simp
next
  case (Suc n)
  define sample where "sample = obstacleSample rnd pl (obs @ newObstacles) 0 k"
  show ?case
  proof (cases "fst sample")
    case None
    then show ?thesis
      using Suc.IH [of newObstacles "snd sample"]
      by (simp add: Let_def sample_def [symmetric])
  next
    case (Some pos)
    then show ?thesis
      using Suc.IH [of "newObstacles @ [\<lparr> x = fst pos, y = snd pos, width = radius pl * 2,
                                          height = radius pl * 2 * 2 \<rparr>]" "snd sample"]
      by (simp add: Let_def sample_def [symmetric])
  qed
qed

lemma toAdd_range:
  assumes "0 \<le> r" and "r < 1"
  shows "nat (1 + \<lfloor>(r::real) * 2\<rfloor>) \<le> 2"
proof -
  have "\<lfloor>r * 2\<rfloor> < 2" using assms by (simp add: floor_less_iff)
  then show ?thesis by linarith
qed

text \<open>
  Claim C7, as stated: when rejection sampling uses up its 20 attempts, both spawners
  still create the entity at an unchecked fallback position, so that each milestone
  crossing adds 1 or 2 obstacles.  This fails for the obstacle spawner, which pushes an
  obstacle only under \<^verbatim>\<open>if (validPosition)\<close>.  With the player at the centre of the
  arena and a random source that always returns 1/2, every sampled position is the
  player's own; the sampling fails and no obstacle is added.
\<close>

theorem spawnObstacles_counterexample:
  "fst (obstacleSample (\<lambda>_. 1 / 2) initialPlayer [] 0 1) = None
   \<and> fst (spawnObstacles (\<lambda>_. 1 / 2) 0 initialPlayer []) = []"
  by (simp add: spawnObstacles_def Let_def numeral_2_eq_2 obstacleSample_centre)

text \<open>
  Claim C7, amended.  When its rejection sampling uses up the 20 attempts (40 random
  numbers) without a valid position, the enemy spawner still appends the enemy, at the
  unchecked fallback position drawn from the next two random numbers; the obstacle
  spawner skips that obstacle and goes on with the next one.  A milestone crossing
  therefore appends at most 2 obstacles (for a random number in \<open>[0, 1)\<close>), possibly
  none.
\<close>

theorem spawners_exhausted_budget:
  "(length enemies < MAX_ENEMIES \<longrightarrow>
      (\<exists>enemy. fst (spawnEnemy rnd k time pl obs enemies) = enemies @ [enemy]
         \<and> (fst (spawnSample rnd pl obs 0 k) = None \<longrightarrow>
              snd (spawnSample rnd pl obs 0 k) = k + 40
            \<and> x enemy = canvasWidth / 2 + (rnd (k + 40) - 0.5) * (canvasWidth - 200)
            \<and> y enemy = canvasHeight / 2 + (rnd (k + 41) - 0.5) * (canvasHeight - 200))))
   \<and> (fst (obstacleSample rnd pl (obs @ newObstacles) 0 k) = None \<longrightarrow>
        snd (obstacleSample rnd pl (obs @ newObstacles) 0 k) = k + 40
      \<and> obstacleLoop rnd pl obs (Suc n) newObstacles k
          = obstacleLoop rnd pl obs n newObstacles (k + 40))
   \<and> (0 \<le> rnd k \<and> rnd k < 1 \<longrightarrow>
        (\<exists>added. fst (spawnObstacles rnd k pl obs) = obs @ added \<and> length added \<le> 2))"
proof (intro conjI impI)
  assume room: "length enemies < MAX_ENEMIES"
  define sample where "sample = spawnSample rnd pl obs 0 k"
  show "\<exists>enemy. fst (spawnEnemy rnd k time pl obs enemies) = enemies @ [enemy]
         \<and> (fst (spawnSample rnd pl obs 0 k) = None \<longrightarrow>
              snd (spawnSample rnd pl obs 0 k) = k + 40
            \<and> x enemy = canvasWidth / 2 + (rnd (k + 40) - 0.5) * (canvasWidth - 200)
            \<and> y enemy = canvasHeight / 2 + (rnd (k + 41) - 0.5) * (canvasHeight - 200))"
  proof (cases "fst sample")
    case None
    then have k1: "snd sample = k + 40"
      using spawnSample_exhausted [of rnd pl obs 0 k] by (simp add: sample_def)
    show ?thesis
      using room None k1 unfolding sample_def [symmetric]
      by (simp add: spawnEnemy_def Let_def sample_def [symmetric] add.commute)
  next
    case (Some pos)
    then show ?thesis
      using room unfolding sample_def [symmetric]
      by (simp add: spawnEnemy_def Let_def sample_def [symmetric])
  qed
next
  assume none: "fst (obstacleSample rnd pl (obs @ newObstacles) 0 k) = None"
  then show k1: "snd (obstacleSample rnd pl (obs @ newObstacles) 0 k) = k + 40"
    using obstacleSample_exhausted [of rnd pl "obs @ newObstacles" 0 k] by simp
  show "obstacleLoop rnd pl obs (Suc n) newObstacles k
          = obstacleLoop rnd pl obs n newObstacles (k + 40)"
    using none k1 by (simp add: Let_def)
next
  assume "0 \<le> rnd k \<and> rnd k < 1"
  then have two: "nat (1 + \<lfloor>rnd k * 2\<rfloor>) \<le> 2" by (simp add: toAdd_range)
  define added where
    "added = fst (obstacleLoop rnd pl obs (nat (1 + \<lfloor>rnd k * 2\<rfloor>)) [] (k + 1))"
  have "length added \<le> 0 + nat (1 + \<lfloor>rnd k * 2\<rfloor>)"
    unfolding added_def using obstacleLoop_length [of rnd pl obs _ "[]"] by simp
  with two have "length added \<le> 2" by simp
  moreover have "fst (spawnObstacles rnd k pl obs) = obs @ added"
    by (simp add: spawnObstacles_def Let_def added_def)
  ultimately show "\<exists>added. fst (spawnObstacles rnd k pl obs) = obs @ added \<and> length added \<le> 2"
    by blast
qed

theorem spawners_exhausted_budget_witness:
  "(\<exists>enemy. fst (spawnEnemy (\<lambda>_. 1 / 2) 1 1000 initialPlayer [] []) = [enemy]
       \<and> x enemy = 640 \<and> y enemy = 360)
   \<and> obstacleLoop (\<lambda>_. 1 / 2) initialPlayer [] (Suc 0) [] 1
       = obstacleLoop (\<lambda>_. 1 / 2) initialPlayer [] 0 [] 41
   \<and> (\<exists>added. fst (spawnObstacles (\<lambda>_. 1 / 2) 1 initialPlayer []) = added \<and> length added \<le> 2)"
proof -
  have room: "length ([] :: Enemy list) < MAX_ENEMIES" by (simp add: MAX_ENEMIES_def)
  have e: "fst (spawnSample (\<lambda>_. 1 / 2) initialPlayer [] 0 1) = None"
    by (simp add: spawnSample_centre)
  have o: "fst (obstacleSample (\<lambda>_. 1 / 2) initialPlayer ([] @ []) 0 1) = None"
    by (simp add: obstacleSample_centre)
  have r: "0 \<le> (\<lambda>_::nat. 1 / 2 :: real) 1 \<and> (\<lambda>_::nat. 1 / 2 :: real) 1 < 1" by simp
  note all = spawners_exhausted_budget [where enemies = "[]" and rnd = "\<lambda>_. 1 / 2" and k = 1
        and time = 1000 and pl = initialPlayer and obs = "[]" and newObstacles = "[]" and n = 0]
  from all room e have
    "\<exists>enemy. fst (spawnEnemy (\<lambda>_. 1 / 2) 1 1000 initialPlayer [] []) = [] @ [enemy]
       \<and> x enemy = canvasWidth / 2 + ((\<lambda>_::nat. 1 / 2) (1 + 40) - 0.5) * (canvasWidth - 200)
       \<and> y enemy = canvasHeight / 2 + ((\<lambda>_::nat. 1 / 2) (1 + 41) - 0.5) * (canvasHeight - 200)"
    by blast
  then have enemy: "\<exists>enemy. fst (spawnEnemy (\<lambda>_. 1 / 2) 1 1000 initialPlayer [] []) = [enemy]
       \<and> x enemy = 640 \<and> y enemy = 360"
    by (simp add: arena_defs)
  from all o have "obstacleLoop (\<lambda>_. 1 / 2) initialPlayer [] (Suc 0) [] 1
       = obstacleLoop (\<lambda>_. 1 / 2) initialPlayer [] 0 [] (1 + 40)"
    by blast
  then have skipped: "obstacleLoop (\<lambda>_. 1 / 2) initialPlayer [] (Suc 0) [] 1
       = obstacleLoop (\<lambda>_. 1 / 2) initialPlayer [] 0 [] 41"
    by simp
  from all r have "\<exists>added. fst (spawnObstacles (\<lambda>_. 1 / 2) 1 initialPlayer []) = [] @ added
      \<and> length added \<le> 2"
    by blast
  then have few: "\<exists>added. fst (spawnObstacles (\<lambda>_. 1 / 2) 1 initialPlayer []) = added
      \<and> length added \<le> 2"
    by simp
  show ?thesis using enemy skipped few by simp
qed

subsection \<open>Spawn invulnerability\<close>

lemma sqrt_less_iff_square: "0 \<le> b \<Longrightarrow> sqrt a < b \<longleftrightarrow> a < b * b"
proof -
  assume b: "0 \<le> b"
  have "sqrt a < b \<longleftrightarrow> sqrt a < sqrt (b * b)" using b by simp
  also have "\<dots> \<longleftrightarrow> a < b * b" by (rule real_sqrt_less_iff)
  finally show ?thesis .
qed

lemma hitEnemy_fields:
  "newGameOver (hitEnemy rnd e enemy i c) = newGameOver c"
  "newEnemies (hitEnemy rnd e enemy i c) = filter (\<lambda>j. j \<noteq> e) (newEnemies c)"
  "newKills (hitEnemy rnd e enemy i c) = newKills c + 1"
  "length (projectiles (hitEnemy rnd e enemy i c)) = length (projectiles c)"
  by (simp_all add: hitEnemy_def Let_def)

lemma scanProjectiles_newGameOver:
  "newGameOver (scanProjectiles rnd e enemy i c) = newGameOver c"
proof (induction rnd e enemy i c rule: scanProjectiles.induct)
  case (1 rnd e enemy i c)
  show ?case
    using "1.IH"
    by (subst scanProjectiles.simps) (simp add: Let_def hitEnemy_fields)
qed

lemma scanProjectiles_newEnemies:
  "newEnemies (scanProjectiles rnd e enemy i c) = newEnemies c
   \<or> newEnemies (scanProjectiles rnd e enemy i c) = filter (\<lambda>j. j \<noteq> e) (newEnemies c)"
proof (induction rnd e enemy i c rule: scanProjectiles.induct)
  case (1 rnd e enemy i c)
  show ?case
    using "1.IH"
    by (subst (1 2) scanProjectiles.simps) (simp add: Let_def hitEnemy_fields)
qed

lemma scanProjectiles_keeps_other:
  assumes "j \<in> set (newEnemies c)" and "j \<noteq> e"
  shows "j \<in> set (newEnemies (scanProjectiles rnd e enemy i c))"
  using scanProjectiles_newEnemies [of rnd e enemy i c] assms by auto

lemma enemyLoop_keeps_invulnerable:
  assumes "j \<in> set (newEnemies c)"
    and "\<forall>entry \<in> set es. fst entry = j \<longrightarrow> timestamp < spawnInvulUntil (snd entry)"
  shows "j \<in> set (newEnemies (enemyLoop rnd timestamp pl es c))"
  using assms
proof (induction es arbitrary: c)
  case Nil
  then show ?case by simp
next
  case (Cons entry rest)
  show ?case
  proof (cases "timestamp < spawnInvulUntil (snd entry)")
    case True
    then show ?thesis using Cons by (simp add: Let_def)
  next
    case False
    with Cons.prems(2) have ne: "j \<noteq> fst entry" by auto
    have "j \<in> set (newEnemies (scanProjectiles rnd (fst entry) (snd entry) 0 c))"
      using Cons.prems(1) ne by (rule scanProjectiles_keeps_other)
    then have "j \<in> set (newEnemies (enemyLoop rnd timestamp pl rest
                 (scanProjectiles rnd (fst entry) (snd entry) 0 c)))"
      using Cons.IH Cons.prems(2) by simp
    then show ?thesis
      using False Cons.prems(1) by (simp add: Let_def)
  qed
qed

lemma enemyLoop_newGameOver:
  assumes "newGameOver (enemyLoop rnd timestamp pl es c)"
  shows "newGameOver c
     \<or> (\<exists>entry \<in> set es. \<not> timestamp < spawnInvulUntil (snd entry)
          \<and> sqrt ((x pl - x (snd entry)) * (x pl - x (snd entry))
                 + (y pl - y (snd entry)) * (y pl - y (snd entry)))
              < radius pl + radius (snd entry))"
  using assms
proof (induction es arbitrary: c)
  case Nil
  then show ?case by simp
next
  case (Cons entry rest)
  show ?case
  proof (cases "timestamp < spawnInvulUntil (snd entry)")
    case True
    then show ?thesis using Cons by (auto simp: Let_def)
  next
    case False
    show ?thesis
    proof (cases "sqrt ((x pl - x (snd entry)) * (x pl - x (snd entry))
                 + (y pl - y (snd entry)) * (y pl - y (snd entry)))
              < radius pl + radius (snd entry)")
      case True
      with False show ?thesis by auto
    next
      case far: False
      from Cons.prems False far
      have "newGameOver (enemyLoop rnd timestamp pl rest
                 (scanProjectiles rnd (fst entry) (snd entry) 0 c))"
        by (simp add: Let_def)
      from Cons.IH [OF this] show ?thesis
        by (auto simp: scanProjectiles_newGameOver)
    qed
  qed
qed

lemma enemyLoop_skips:
  assumes "list_all2 (\<lambda>a b. a = b \<or> (timestamp < spawnInvulUntil (snd a)
                                      \<and> timestamp < spawnInvulUntil (snd b))) es es'"
  shows "enemyLoop rnd timestamp pl es c = enemyLoop rnd timestamp pl es' c"
  using assms
proof (induction es es' arbitrary: c rule: list_all2_induct)
  case Nil
  then show ?case by simp
next
  case (Cons a es b es')
  then show ?case by (auto simp: Let_def)
qed

lemma enumerate_update_skips:
  assumes "e < length enemies"
    and "timestamp < spawnInvulUntil (enemies ! e)"
    and "timestamp < spawnInvulUntil moved"
  shows "list_all2 (\<lambda>a b. a = b \<or> (timestamp < spawnInvulUntil (snd a)
                                      \<and> timestamp < spawnInvulUntil (snd b)))
           (enumerate 0 enemies) (enumerate 0 (enemies[e := moved]))"
  using assms
  by (auto simp: list_all2_conv_all_nth nth_enumerate_eq nth_list_update)


lemma filter_neq_absent: "e \<notin> set xs \<Longrightarrow> filter (\<lambda>j. j \<noteq> e) xs = xs"
  by (induction xs) auto

lemma length_filter_neq:
  "distinct xs \<Longrightarrow> e \<in> set xs \<Longrightarrow> length (filter (\<lambda>j. j \<noteq> e) xs) + 1 = length xs"
  by (induction xs) (auto simp: filter_neq_absent)

lemma scanProjectiles_cases:
  "(newEnemies (scanProjectiles rnd e enemy i c) = newEnemies c
      \<and> newKills (scanProjectiles rnd e enemy i c) = newKills c)
   \<or> (newEnemies (scanProjectiles rnd e enemy i c) = filter (\<lambda>j. j \<noteq> e) (newEnemies c)
      \<and> newKills (scanProjectiles rnd e enemy i c) = newKills c + 1)"
proof (induction rnd e enemy i c rule: scanProjectiles.induct)
  case (1 rnd e enemy i c)
  show ?case
    using "1.IH"
    by (subst (1 2 3 4) scanProjectiles.simps) (simp add: Let_def hitEnemy_fields)
qed

lemma enemyLoop_accounting:
  assumes "distinct (map fst es)" and "distinct (newEnemies c)"
    and "fst ` set es \<subseteq> set (newEnemies c)"
  shows "newKills (enemyLoop rnd timestamp pl es c) + length (newEnemies (enemyLoop rnd timestamp pl es c))
       = newKills c + length (newEnemies c)"
  using assms
proof (induction es arbitrary: c)
  case Nil
  then show ?case by simp
next
  case (Cons entry rest)
  define c1 where "c1 = scanProjectiles rnd (fst entry) (snd entry) 0 c"
  from Cons.prems have rest: "distinct (map fst rest)" "fst ` set rest \<subseteq> set (newEnemies c)"
    and own: "fst entry \<in> set (newEnemies c)" and fresh: "fst entry \<notin> fst ` set rest"
    by auto
  have scan: "distinct (newEnemies c1) \<and> fst ` set rest \<subseteq> set (newEnemies c1)
      \<and> newKills c1 + length (newEnemies c1) = newKills c + length (newEnemies c)"
    using scanProjectiles_cases [of rnd "fst entry" "snd entry" 0 c]
  proof
    assume "newEnemies (scanProjectiles rnd (fst entry) (snd entry) 0 c) = newEnemies c
      \<and> newKills (scanProjectiles rnd (fst entry) (snd entry) 0 c) = newKills c"
    then show ?thesis using Cons.prems(2) rest(2) by (simp add: c1_def)
  next
    assume killed: "newEnemies (scanProjectiles rnd (fst entry) (snd entry) 0 c)
        = filter (\<lambda>j. j \<noteq> fst entry) (newEnemies c)
      \<and> newKills (scanProjectiles rnd (fst entry) (snd entry) 0 c) = newKills c + 1"
    have "length (filter (\<lambda>j. j \<noteq> fst entry) (newEnemies c)) + 1 = length (newEnemies c)"
      using Cons.prems(2) own by (rule length_filter_neq)
    moreover have "fst ` set rest \<subseteq> set (filter (\<lambda>j. j \<noteq> fst entry) (newEnemies c))"
    proof
      fix j
      assume j: "j \<in> fst ` set rest"
      with fresh have "j \<noteq> fst entry" by blast
      moreover from j rest(2) have "j \<in> set (newEnemies c)" by blast
      ultimately show "j \<in> set (filter (\<lambda>j. j \<noteq> fst entry) (newEnemies c))" by simp
    qed
    ultimately show ?thesis using killed Cons.prems(2) by (simp add: c1_def)
  qed
  have through: "newKills (enemyLoop rnd timestamp pl rest c1)
        + length (newEnemies (enemyLoop rnd timestamp pl rest c1))
      = newKills c + length (newEnemies c)"
    using Cons.IH [of c1] rest(1) scan by simp
  have skip: "newKills (enemyLoop rnd timestamp pl rest c)
        + length (newEnemies (enemyLoop rnd timestamp pl rest c))
      = newKills c + length (newEnemies c)"
    using Cons.IH [of c] rest Cons.prems(2) by simp
  show ?case
    using through skip by (simp add: Let_def c1_def)
qed

lemma hitEnemy_newDrops:
  "d \<in> set (newDrops (hitEnemy rnd e enemy i c))
     \<Longrightarrow> d \<in> set (newDrops c) \<or> (x d = x enemy \<and> y d = y enemy)"
  by (auto simp: hitEnemy_def Let_def split: if_splits)

lemma scanProjectiles_newDrops:
  "d \<in> set (newDrops (scanProjectiles rnd e enemy i c))
     \<Longrightarrow> d \<in> set (newDrops c) \<or> (x d = x enemy \<and> y d = y enemy)"
proof (induction rnd e enemy i c rule: scanProjectiles.induct)
  case (1 rnd e enemy i c)
  from "1.prems" show ?case
    using "1.IH" hitEnemy_newDrops [of d rnd e enemy i c]
    by (subst (asm) scanProjectiles.simps) (auto simp: Let_def split: if_splits)
qed

lemma enemyLoop_newDrops:
  "d \<in> set (newDrops (enemyLoop rnd timestamp pl es c))
     \<Longrightarrow> d \<in> set (newDrops c)
       \<or> (\<exists>entry \<in> set es. \<not> timestamp < spawnInvulUntil (snd entry)
             \<and> x d = x (snd entry) \<and> y d = y (snd entry))"
proof (induction es arbitrary: c)
  case Nil
  then show ?case by simp
next
  case (Cons entry rest)
  show ?case
  proof (cases "timestamp < spawnInvulUntil (snd entry)")
    case True
    with Cons.prems have "d \<in> set (newDrops (enemyLoop rnd timestamp pl rest c))"
      by (simp add: Let_def)
    from Cons.IH [OF this] show ?thesis by auto
  next
    case False
    show ?thesis
    proof (cases "sqrt ((x pl - x (snd entry)) * (x pl - x (snd entry))
                 + (y pl - y (snd entry)) * (y pl - y (snd entry)))
              < radius pl + radius (snd entry)")
      case True
      with False Cons.prems show ?thesis by (simp add: Let_def)
    next
      case far: False
      from Cons.prems False far
      have "d \<in> set (newDrops (enemyLoop rnd timestamp pl rest
                 (scanProjectiles rnd (fst entry) (snd entry) 0 c)))"
        by (simp add: Let_def)
      from Cons.IH [OF this]
      show ?thesis
        using False scanProjectiles_newDrops [of d rnd "fst entry" "snd entry" 0 c] by auto
    qed
  qed
qed

text \<open>
  Claim C3.  An enemy spawned at time \<open>T\<close> has \<open>spawnInvulUntil = T + 300\<close>.  In a tick
  whose timestamp is before an enemy's \<open>spawnInvulUntil\<close>, the combat pass skips that
  enemy: it stays in the enemy list that the pass stores, and the outcome of the pass
  (game-over flag, kills, drops, projectiles) is the same wherever that enemy stands,
  so neither contact with the player nor a projectile on it has any effect.  Game over is flagged only by
  contact with an enemy outside its window, every kill counted removes one enemy from
  the list, and every new drop lies where an enemy outside its window stands.
\<close>

theorem spawn_invulnerability:
  "(length enemies < MAX_ENEMIES \<longrightarrow>
      (\<exists>enemy. fst (spawnEnemy rnd k time pl obs enemies) = enemies @ [enemy]
         \<and> spawnInvulUntil enemy = time + 300))
   \<and> (\<forall>e < length enemies. timestamp < spawnInvulUntil (enemies ! e) \<longrightarrow>
         e \<in> set (newEnemies (combatPass rnd k timestamp pl enemies projs drops kills over))
       \<and> enemies ! e
           \<in> set (storedEnemies enemies (combatPass rnd k timestamp pl enemies projs drops kills over))
       \<and> (\<forall>moved. timestamp < spawnInvulUntil moved \<longrightarrow>
             combatPass rnd k timestamp pl (enemies[e := moved]) projs drops kills over
               = combatPass rnd k timestamp pl enemies projs drops kills over))
   \<and> (newGameOver (combatPass rnd k timestamp pl enemies projs drops kills over) \<longrightarrow>
         over \<or> (\<exists>enemy \<in> set enemies. \<not> timestamp < spawnInvulUntil enemy
                   \<and> sqrt ((x pl - x enemy) * (x pl - x enemy) + (y pl - y enemy) * (y pl - y enemy))
                       < radius pl + radius enemy))
   \<and> newKills (combatPass rnd k timestamp pl enemies projs drops kills over)
       + length (newEnemies (combatPass rnd k timestamp pl enemies projs drops kills over))
       = kills + length enemies
   \<and> (\<forall>d. d \<in> set (newDrops (combatPass rnd k timestamp pl enemies projs drops kills over)) \<longrightarrow>
         d \<in> set drops \<or> (\<exists>enemy \<in> set enemies. \<not> timestamp < spawnInvulUntil enemy
                               \<and> x d = x enemy \<and> y d = y enemy))"
proof (intro conjI impI allI)
  assume room: "length enemies < MAX_ENEMIES"
  then show "\<exists>enemy. fst (spawnEnemy rnd k time pl obs enemies) = enemies @ [enemy]
         \<and> spawnInvulUntil enemy = time + 300"
    by (simp add: spawnEnemy_def Let_def)
next
  fix e
  assume e: "e < length enemies" and inv: "timestamp < spawnInvulUntil (enemies ! e)"
  have "\<forall>entry \<in> set (enumerate 0 enemies). fst entry = e
          \<longrightarrow> timestamp < spawnInvulUntil (snd entry)"
    using inv by (auto simp: in_set_enumerate_eq)
  moreover have "e \<in> set [0..<length enemies]" using e by simp
  ultimately show "e \<in> set (newEnemies (combatPass rnd k timestamp pl enemies projs drops kills over))"
    unfolding combatPass_def by (intro enemyLoop_keeps_invulnerable) simp_all
next
  fix e
  assume e: "e < length enemies" and inv: "timestamp < spawnInvulUntil (enemies ! e)"
  have "\<forall>entry \<in> set (enumerate 0 enemies). fst entry = e
          \<longrightarrow> timestamp < spawnInvulUntil (snd entry)"
    using inv by (auto simp: in_set_enumerate_eq)
  moreover have "e \<in> set [0..<length enemies]" using e by simp
  ultimately have "e \<in> set (newEnemies (combatPass rnd k timestamp pl enemies projs drops kills over))"
    unfolding combatPass_def by (intro enemyLoop_keeps_invulnerable) simp_all
  then show "enemies ! e
      \<in> set (storedEnemies enemies (combatPass rnd k timestamp pl enemies projs drops kills over))"
    by (simp add: storedEnemies_def)
next
  fix e and moved :: Enemy
  assume e: "e < length enemies" and inv: "timestamp < spawnInvulUntil (enemies ! e)"
    and moved: "timestamp < spawnInvulUntil moved"
  have "enemyLoop rnd timestamp pl (enumerate 0 enemies) c
      = enemyLoop rnd timestamp pl (enumerate 0 (enemies[e := moved])) c" for c
    using enumerate_update_skips [OF e inv moved] by (rule enemyLoop_skips)
  then show "combatPass rnd k timestamp pl (enemies[e := moved]) projs drops kills over
               = combatPass rnd k timestamp pl enemies projs drops kills over"
    by (simp add: combatPass_def)
next
  assume "newGameOver (combatPass rnd k timestamp pl enemies projs drops kills over)"
  from enemyLoop_newGameOver [OF this [unfolded combatPass_def]]
  show "over \<or> (\<exists>enemy \<in> set enemies. \<not> timestamp < spawnInvulUntil enemy
                   \<and> sqrt ((x pl - x enemy) * (x pl - x enemy) + (y pl - y enemy) * (y pl - y enemy))
                       < radius pl + radius enemy)"
    by (auto simp: in_set_enumerate_eq)
next
  show "newKills (combatPass rnd k timestamp pl enemies projs drops kills over)
       + length (newEnemies (combatPass rnd k timestamp pl enemies projs drops kills over))
       = kills + length enemies"
    unfolding combatPass_def
    by (subst enemyLoop_accounting) (auto simp: in_set_enumerate_eq)
next
  fix d
  assume "d \<in> set (newDrops (combatPass rnd k timestamp pl enemies projs drops kills over))"
  from enemyLoop_newDrops [OF this [unfolded combatPass_def]]
  show "d \<in> set drops \<or> (\<exists>enemy \<in> set enemies. \<not> timestamp < spawnInvulUntil enemy
                               \<and> x d = x enemy \<and> y d = y enemy)"
    by (auto simp: in_set_enumerate_eq)
qed

theorem spawn_invulnerability_witness:
  "(\<exists>enemy. fst (spawnEnemy (\<lambda>_. 1 / 2) 0 1000 initialPlayer [] []) = [enemy]
       \<and> spawnInvulUntil enemy = 1300)
   \<and> (let fresh = \<lparr> x = 640, y = 360, vx = 0, vy = 0, radius = 12, spawnInvulUntil = 1300 \<rparr>;
           shot = \<lparr> x = 640, y = 360, vx = 6, vy = 0, radius = 4,
                    createdAt = 900, piercesLeft = 0, canRicochet = False \<rparr>;
           c = combatPass (\<lambda>_. 0) 0 1000 initialPlayer [fresh] [shot] [] 0 False
       in \<not> newGameOver c \<and> newEnemies c = [0] \<and> newKills c = 0
          \<and> storedEnemies [fresh] c = [fresh]
          \<and> combatPass (\<lambda>_. 0) 0 1000 initialPlayer [fresh\<lparr> x := 100, y := 100 \<rparr>] [shot] [] 0 False = c)
   \<and> (let old = \<lparr> x = 700, y = 360, vx = 0, vy = 0, radius = 12, spawnInvulUntil = 500 \<rparr>;
           shot = \<lparr> x = 700, y = 360, vx = 6, vy = 0, radius = 4,
                    createdAt = 900, piercesLeft = 0, canRicochet = False \<rparr>;
           c = combatPass (\<lambda>_. 0) 0 1000 initialPlayer [old] [shot] [] 0 False
       in newDrops c = [\<lparr> x = 700, y = 360, drop_radius = 12 \<rparr>]
          \<and> (\<exists>enemy \<in> set [old]. \<not> 1000 < spawnInvulUntil enemy \<and> x enemy = 700 \<and> y enemy = 360))
   \<and> (let old = \<lparr> x = 650, y = 360, vx = 0, vy = 0, radius = 12, spawnInvulUntil = 500 \<rparr>;
           c = combatPass (\<lambda>_. 0) 0 1000 initialPlayer [old] [] [] 0 False
       in newGameOver c
          \<and> (\<exists>enemy \<in> set [old]. \<not> 1000 < spawnInvulUntil enemy
                \<and> sqrt ((x initialPlayer - x enemy) * (x initialPlayer - x enemy)
                        + (y initialPlayer - y enemy) * (y initialPlayer - y enemy))
                    < radius initialPlayer + radius enemy))"
proof -
  define fresh :: Enemy where
    "fresh = \<lparr> x = 640, y = 360, vx = 0, vy = 0, radius = 12, spawnInvulUntil = 1300 \<rparr>"
  define shot :: Projectile where
    "shot = \<lparr> x = 640, y = 360, vx = 6, vy = 0, radius = 4,
              createdAt = 900, piercesLeft = 0, canRicochet = False \<rparr>"
  define c where "c = combatPass (\<lambda>_. 0) 0 1000 initialPlayer [fresh] [shot] [] 0 False"
  have room: "length ([] :: Enemy list) < MAX_ENEMIES" by (simp add: MAX_ENEMIES_def)
  have inv: "1000 < spawnInvulUntil ([fresh] ! 0)" and len: "0 < length [fresh]"
    by (simp_all add: fresh_def)
  note main = spawn_invulnerability [where enemies = "[fresh]" and rnd = "\<lambda>_. 0" and k = 0
      and timestamp = 1000 and pl = initialPlayer and projs = "[shot]" and drops = "[]"
      and kills = 0 and over = False and time = 0 and obs = "[]", folded c_def]
  from main inv len have kept: "0 \<in> set (newEnemies c)" by blast
  from main have "newGameOver c \<longrightarrow> False \<or> (\<exists>enemy \<in> set [fresh]. \<not> 1000 < spawnInvulUntil enemy
        \<and> sqrt ((x initialPlayer - x enemy) * (x initialPlayer - x enemy)
                + (y initialPlayer - y enemy) * (y initialPlayer - y enemy))
            < radius initialPlayer + radius enemy)"
    by blast
  then have calm: "\<not> newGameOver c" by (auto simp: fresh_def)
  from main have "newKills c + length (newEnemies c) = 0 + length [fresh]" by blast
  then have count: "newKills c + length (newEnemies c) = 1" by simp
  from kept have "0 < length (newEnemies c)" by (cases "newEnemies c") auto
  with count have one: "length (newEnemies c) = 1" and none: "newKills c = 0" by linarith+
  from one kept have listed: "newEnemies c = [0]" by (cases "newEnemies c") auto
  have "1000 < spawnInvulUntil (fresh\<lparr> x := 100, y := 100 \<rparr>)" by (simp add: fresh_def)
  with main inv len
  have "combatPass (\<lambda>_. 0) 0 1000 initialPlayer ([fresh][0 := fresh\<lparr> x := 100, y := 100 \<rparr>])
          [shot] [] 0 False = c"
    by blast
  then have moved:
    "combatPass (\<lambda>_. 0) 0 1000 initialPlayer [fresh\<lparr> x := 100, y := 100 \<rparr>] [shot] [] 0 False = c"
    by simp
  have pass: "\<not> newGameOver c \<and> newEnemies c = [0] \<and> newKills c = 0
      \<and> storedEnemies [fresh] c = [fresh]
      \<and> combatPass (\<lambda>_. 0) 0 1000 initialPlayer [fresh\<lparr> x := 100, y := 100 \<rparr>] [shot] [] 0 False = c"
    using calm none listed moved by (simp add: storedEnemies_def)
  note spawn = spawn_invulnerability [where enemies = "[]" and rnd = "\<lambda>_. 1 / 2" and k = 0
        and time = 1000 and pl = initialPlayer and obs = "[]" and timestamp = 0
        and projs = "[]" and drops = "[]" and kills = 0 and over = False]
  from spawn room have "\<exists>enemy. fst (spawnEnemy (\<lambda>_. 1 / 2) 0 1000 initialPlayer [] []) = [] @ [enemy]
       \<and> spawnInvulUntil enemy = 1000 + 300"
    by blast
  then have spawned: "\<exists>enemy. fst (spawnEnemy (\<lambda>_. 1 / 2) 0 1000 initialPlayer [] []) = [enemy]
       \<and> spawnInvulUntil enemy = 1300"
    by simp

  define target :: Enemy where
    "target = \<lparr> x = 700, y = 360, vx = 0, vy = 0, radius = 12, spawnInvulUntil = 500 \<rparr>"
  define arrow :: Projectile where
    "arrow = \<lparr> x = 700, y = 360, vx = 6, vy = 0, radius = 4,
               createdAt = 900, piercesLeft = 0, canRicochet = False \<rparr>"
  define ck where "ck = combatPass (\<lambda>_. 0) 0 1000 initialPlayer [target] [arrow] [] 0 False"
  have far: "\<not> sqrt ((x initialPlayer - x target) * (x initialPlayer - x target)
        + (y initialPlayer - y target) * (y initialPlayer - y target))
      < radius initialPlayer + radius target"
    by (simp add: initialPlayer_def target_def sqrt_less_iff_square)
  have vulnerable: "\<not> 1000 < spawnInvulUntil target" by (simp add: target_def)
  have dropped: "newDrops ck = [\<lparr> x = 700, y = 360, drop_radius = 12 \<rparr>]"
    unfolding ck_def combatPass_def using far vulnerable
    by (simp add: Let_def) (subst scanProjectiles.simps,
        simp add: Let_def hitEnemy_def target_def arrow_def dropChance_def)
  then have "\<lparr> x = 700, y = 360, drop_radius = 12 \<rparr> \<in> set (newDrops ck)" by simp
  with spawn_invulnerability [where enemies = "[target]" and rnd = "\<lambda>_. 0" and k = 0
      and timestamp = 1000 and pl = initialPlayer and projs = "[arrow]" and drops = "[]"
      and kills = 0 and over = False and time = 0 and obs = "[]", folded ck_def]
  have "\<lparr> x = 700, y = 360, drop_radius = 12 \<rparr> \<in> set ([] :: Drop list)
      \<or> (\<exists>enemy \<in> set [target]. \<not> 1000 < spawnInvulUntil enemy
            \<and> x \<lparr> x = 700, y = 360, drop_radius = 12 \<rparr> = x enemy
            \<and> y \<lparr> x = 700, y = 360, drop_radius = 12 \<rparr> = y enemy)"
    by blast
  then have source: "\<exists>enemy \<in> set [target]. \<not> 1000 < spawnInvulUntil enemy
      \<and> x enemy = 700 \<and> y enemy = 360"
    by simp

  define toucher :: Enemy where
    "toucher = \<lparr> x = 650, y = 360, vx = 0, vy = 0, radius = 12, spawnInvulUntil = 500 \<rparr>"
  define cg where "cg = combatPass (\<lambda>_. 0) 0 1000 initialPlayer [toucher] [] [] 0 False"
  have ended: "newGameOver cg"
    unfolding cg_def combatPass_def
    by (simp add: Let_def toucher_def initialPlayer_def sqrt_less_iff_square)
  with spawn_invulnerability [where enemies = "[toucher]" and rnd = "\<lambda>_. 0" and k = 0
      and timestamp = 1000 and pl = initialPlayer and projs = "[]" and drops = "[]"
      and kills = 0 and over = False and time = 0 and obs = "[]", folded cg_def]
  have "False \<or> (\<exists>enemy \<in> set [toucher]. \<not> 1000 < spawnInvulUntil enemy
        \<and> sqrt ((x initialPlayer - x enemy) * (x initialPlayer - x enemy)
                + (y initialPlayer - y enemy) * (y initialPlayer - y enemy))
            < radius initialPlayer + radius enemy)"
    by blast
  then have contact: "\<exists>enemy \<in> set [toucher]. \<not> 1000 < spawnInvulUntil enemy
        \<and> sqrt ((x initialPlayer - x enemy) * (x initialPlayer - x enemy)
                + (y initialPlayer - y enemy) * (y initialPlayer - y enemy))
            < radius initialPlayer + radius enemy"
    by simp
  show ?thesis
    unfolding Let_def fresh_def [symmetric] shot_def [symmetric] c_def [symmetric]
      target_def [symmetric] arrow_def [symmetric] ck_def [symmetric]
      toucher_def [symmetric] cg_def [symmetric]
    using spawned pass dropped source ended contact by blast
qed

subsection \<open>Pierce count\<close>

lemma filterIndexNot_simps:
  "filterIndexNot 0 [a, b] = [b]" "filterIndexNot (Suc 0) [b] = [b]"
  by (simp_all add: filterIndexNot_def)

text \<open>
  The pierce count itself stays non-negative: a volley starts with 0 or 1, the
  projectile updater does not touch it, and the combat pass decrements it only when it
  is positive.
\<close>

lemma filterIndexNot_subset: "set (filterIndexNot i xs) \<subseteq> set xs"
  by (auto simp: filterIndexNot_def in_set_enumerate_eq)

lemma hitEnemy_store:
  assumes "(\<forall>p \<in> set (projectiles c). 0 \<le> piercesLeft p)
         \<and> (\<forall>j \<in> set (newProjectiles c). j < length (projectiles c))"
  shows "(\<forall>p \<in> set (projectiles (hitEnemy rnd e enemy i c)). 0 \<le> piercesLeft p)
       \<and> (\<forall>j \<in> set (newProjectiles (hitEnemy rnd e enemy i c)).
             j < length (projectiles (hitEnemy rnd e enemy i c)))"
proof -
  have updated: "0 \<le> piercesLeft p"
    if "p \<in> set ((projectiles c)[i := (projectiles c ! i)\<lparr> piercesLeft := piercesLeft (projectiles c ! i) - 1 \<rparr>])"
      and "0 < piercesLeft (projectiles c ! i)" for p
    using that assms set_update_subset_insert [of "projectiles c" i] by fastforce
  have removed: "j < length (projectiles c)" if "j \<in> set (filterIndexNot i (newProjectiles c))" for j
    using that assms filterIndexNot_subset [of i "newProjectiles c"] by blast
  show ?thesis using assms updated removed by (auto simp: hitEnemy_def Let_def)
qed

lemma scanProjectiles_store:
  "(\<forall>p \<in> set (projectiles c). 0 \<le> piercesLeft p)
     \<and> (\<forall>j \<in> set (newProjectiles c). j < length (projectiles c))
   \<Longrightarrow> (\<forall>p \<in> set (projectiles (scanProjectiles rnd e enemy i c)). 0 \<le> piercesLeft p)
     \<and> (\<forall>j \<in> set (newProjectiles (scanProjectiles rnd e enemy i c)).
           j < length (projectiles (scanProjectiles rnd e enemy i c)))"
proof (induction rnd e enemy i c rule: scanProjectiles.induct)
  case (1 rnd e enemy i c)
  show ?case
    using "1.IH" "1.prems" hitEnemy_store [OF "1.prems", of rnd e enemy i]
    by (subst (1 2 3) scanProjectiles.simps) (simp add: Let_def)
qed

lemma enemyLoop_store:
  "(\<forall>p \<in> set (projectiles c). 0 \<le> piercesLeft p)
     \<and> (\<forall>j \<in> set (newProjectiles c). j < length (projectiles c))
   \<Longrightarrow> (\<forall>p \<in> set (projectiles (enemyLoop rnd timestamp pl es c)). 0 \<le> piercesLeft p)
     \<and> (\<forall>j \<in> set (newProjectiles (enemyLoop rnd timestamp pl es c)).
           j < length (projectiles (enemyLoop rnd timestamp pl es c)))"
proof (induction es arbitrary: c)
  case Nil
  then show ?case by simp
next
  case (Cons entry rest)
  note scanned = scanProjectiles_store [OF Cons.prems, of rnd "fst entry" "snd entry" 0]
  show ?case
    using Cons.IH [OF Cons.prems] Cons.IH [OF scanned] Cons.prems
    by (simp add: Let_def)
qed

lemma piercesLeft_never_negative:
  "\<forall>p \<in> set (fst (fireProjectile time st pl [])). 0 \<le> piercesLeft p"
  "stepProjectile timestamp obs p = Some q \<Longrightarrow> piercesLeft q = piercesLeft p"
  "\<forall>p \<in> set projs. 0 \<le> piercesLeft p
     \<Longrightarrow> \<forall>p \<in> set (storedProjectiles (combatPass rnd k timestamp pl enemies projs drops kills over)).
           0 \<le> piercesLeft p"
proof -
  show "\<forall>p \<in> set (fst (fireProjectile time st pl [])). 0 \<le> piercesLeft p"
    by (auto simp: fireProjectile_def Let_def)
  show "piercesLeft q = piercesLeft p" if "stepProjectile timestamp obs p = Some q"
    using that by (auto simp: stepProjectile_def Let_def split: if_splits option.splits)
  show "\<forall>p \<in> set (storedProjectiles (combatPass rnd k timestamp pl enemies projs drops kills over)).
           0 \<le> piercesLeft p"
    if start: "\<forall>p \<in> set projs. 0 \<le> piercesLeft p"
  proof -
    define c where "c = combatPass rnd k timestamp pl enemies projs drops kills over"
    have "(\<forall>p \<in> set (projectiles c). 0 \<le> piercesLeft p)
        \<and> (\<forall>j \<in> set (newProjectiles c). j < length (projectiles c))"
      unfolding c_def combatPass_def by (rule enemyLoop_store) (simp add: start)
    then show ?thesis
      unfolding c_def [symmetric] by (auto simp: storedProjectiles_def)
  qed
qed

text \<open>
  Claim C2 says that a projectile with pierce count \<open>N\<close> is removed on its \<open>(N+1)\<close>-th
  enemy hit.  The code removes it with \<^verbatim>\<open>newProjectiles.filter((_, index) => index !== i)\<close>,
  where \<open>i\<close> is the index in the original array but \<^verbatim>\<open>newProjectiles\<close> may already be
  shorter.  Here two projectiles without pierce each hit one enemy in the same tick:
  both enemies are killed, the first projectile is removed, and the second one, now at
  index 0 of \<^verbatim>\<open>newProjectiles\<close>, stays in the stored array.
\<close>

theorem combatPass_keeps_spent_projectile:
  "(let p0 = \<lparr> x = 640, y = 144, vx = 0, vy = - 6, radius = 4,
               createdAt = 4400, piercesLeft = 0, canRicochet = False \<rparr>;
        p1 = \<lparr> x = 676, y = 360, vx = 6, vy = 0, radius = 4,
               createdAt = 4900, piercesLeft = 0, canRicochet = False \<rparr>;
        e0 = \<lparr> x = 640, y = 140, vx = 0, vy = 0, radius = 12, spawnInvulUntil = 1500 \<rparr>;
        e1 = \<lparr> x = 680, y = 360, vx = 0, vy = 0, radius = 12, spawnInvulUntil = 2700 \<rparr>;
        c = combatPass (\<lambda>_. 1 / 2) 0 5000 initialPlayer [e0, e1] [p0, p1] [] 0 False
    in piercesLeft p1 = 0
       \<and> sqrt ((x p1 - x e1) * (x p1 - x e1) + (y p1 - y e1) * (y p1 - y e1))
            < radius p1 + radius e1
       \<and> newKills c = 2 \<and> newEnemies c = [] \<and> projectilesChanged c
       \<and> storedProjectiles c = [p1])"
proof -
  define p0 :: Projectile where "p0 = \<lparr> x = 640, y = 144, vx = 0, vy = - 6, radius = 4,
               createdAt = 4400, piercesLeft = 0, canRicochet = False \<rparr>"
  define p1 :: Projectile where "p1 = \<lparr> x = 676, y = 360, vx = 6, vy = 0, radius = 4,
               createdAt = 4900, piercesLeft = 0, canRicochet = False \<rparr>"
  define e0 :: Enemy where "e0 = \<lparr> x = 640, y = 140, vx = 0, vy = 0, radius = 12, spawnInvulUntil = 1500 \<rparr>"
  define e1 :: Enemy where "e1 = \<lparr> x = 680, y = 360, vx = 0, vy = 0, radius = 12, spawnInvulUntil = 2700 \<rparr>"
  define c0 :: Combat where "c0 = \<lparr> newGameOver = False, newKills = 0, newDrops = [],
         newEnemies = [0, 1], newProjectiles = [0, 1],
         projectiles = [p0, p1],
         dropsChanged = False, enemiesChanged = False, projectilesChanged = False,
         rndIndex = 0 \<rparr>"
  define c1 :: Combat where "c1 = \<lparr> newGameOver = False, newKills = 1, newDrops = [],
         newEnemies = [1], newProjectiles = [1],
         projectiles = [p0, p1],
         dropsChanged = False, enemiesChanged = True, projectilesChanged = True,
         rndIndex = 1 \<rparr>"
  define c2 :: Combat where "c2 = \<lparr> newGameOver = False, newKills = 2, newDrops = [],
         newEnemies = [], newProjectiles = [1],
         projectiles = [p0, p1],
         dropsChanged = False, enemiesChanged = True, projectilesChanged = True,
         rndIndex = 2 \<rparr>"
  have s1: "scanProjectiles (\<lambda>_. 1 / 2) 0 e0 0 c0 = c1"
    by (subst scanProjectiles.simps)
       (simp add: c0_def c1_def p0_def e0_def Let_def hitEnemy_def sqrt_less_iff_square
          dropChance_def filterIndexNot_simps)
  have s2: "scanProjectiles (\<lambda>_. 1 / 2) (Suc 0) e1 0 c1 = scanProjectiles (\<lambda>_. 1 / 2) (Suc 0) e1 (Suc 0) c1"
    by (subst scanProjectiles.simps)
       (simp add: c1_def p0_def e1_def Let_def sqrt_less_iff_square)
  have s3: "scanProjectiles (\<lambda>_. 1 / 2) (Suc 0) e1 (Suc 0) c1 = c2"
    by (subst scanProjectiles.simps)
       (simp add: c1_def c2_def p1_def e1_def Let_def hitEnemy_def sqrt_less_iff_square
          dropChance_def filterIndexNot_simps)
  have far: "\<not> sqrt ((x initialPlayer - x e0) * (x initialPlayer - x e0)
                  + (y initialPlayer - y e0) * (y initialPlayer - y e0)) < radius initialPlayer + radius e0"
    "\<not> sqrt ((x initialPlayer - x e1) * (x initialPlayer - x e1)
                  + (y initialPlayer - y e1) * (y initialPlayer - y e1)) < radius initialPlayer + radius e1"
    by (simp_all add: initialPlayer_def e0_def e1_def sqrt_less_iff_square)
  have vul: "\<not> 5000 < spawnInvulUntil e0" "\<not> 5000 < spawnInvulUntil e1"
    by (simp_all add: e0_def e1_def)
  have init: "\<lparr> newGameOver = False, newKills = 0, newDrops = [],
         newEnemies = [0..<length [e0, e1]], newProjectiles = [0..<length [p0, p1]],
         projectiles = [p0, p1],
         dropsChanged = False, enemiesChanged = False, projectilesChanged = False,
         rndIndex = 0 \<rparr> = c0"
    by (simp add: c0_def upt_rec)
  have entries: "enumerate 0 [e0, e1] = [(0, e0), (Suc 0, e1)]" by simp
  have "combatPass (\<lambda>_. 1 / 2) 0 5000 initialPlayer [e0, e1] [p0, p1] [] 0 False
      = enemyLoop (\<lambda>_. 1 / 2) 5000 initialPlayer [(0, e0), (Suc 0, e1)] c0"
    unfolding combatPass_def init entries ..
  also have "\<dots> = c2"
    using far vul by (simp add: Let_def s1 s2 s3)
  finally have pass:
    "combatPass (\<lambda>_. 1 / 2) 0 5000 initialPlayer [e0, e1] [p0, p1] [] 0 False = c2" .
  show ?thesis
    unfolding Let_def p0_def [symmetric] p1_def [symmetric] e0_def [symmetric] e1_def [symmetric] pass
    by (simp add: c2_def storedProjectiles_def) (simp add: p1_def e1_def sqrt_less_iff_square)
qed

subsection \<open>Milestones and the perk prompt\<close>

lemma pool_length: "length pool = 5" by (simp add: pool_def)

lemma pool_ids_distinct: "distinct (map perk_id pool)" by (simp add: pool_def)

lemma find_None_ids: "find (\<lambda>p. perk_id p = a) picks = None \<longleftrightarrow> a \<notin> set (map perk_id picks)"
  by (auto simp: find_None_iff)

lemma draw_in_range:
  assumes "0 \<le> r" and "r < 1"
  shows "0 \<le> \<lfloor>r * 5\<rfloor> \<and> \<lfloor>(r::real) * 5\<rfloor> < 5 \<and> nat \<lfloor>r * 5\<rfloor> < 5"
proof -
  have "\<lfloor>r * 5\<rfloor> < 5" using assms by (simp add: floor_less_iff)
  moreover have "0 \<le> \<lfloor>r * 5\<rfloor>" using assms by simp
  ultimately show ?thesis by linarith
qed

lemma pickLoop_done: "\<not> length picks < 3 \<Longrightarrow> pickLoop rnd k picks = Some (Inr (picks, k))"
  by (subst pickLoop.simps) simp

lemma pickLoop_draw:
  assumes "length picks < 3" and "0 \<le> rnd k" and "rnd k < 1"
  shows "pickLoop rnd k picks =
     pickLoop rnd (k + 1)
       (if perk_id (pool ! nat \<lfloor>rnd k * 5\<rfloor>) \<notin> set (map perk_id picks)
        then picks @ [pool ! nat \<lfloor>rnd k * 5\<rfloor>] else picks)"
  using assms(1) draw_in_range [OF assms(2,3)]
  by (subst pickLoop.simps) (simp add: pool_length find_None_ids)

lemma pickLoop_terminates:
  fixes rnd :: "nat \<Rightarrow> real"
  assumes range: "\<forall>j. 0 \<le> rnd j \<and> rnd j < 1"
  shows "set picks \<subseteq> set pool \<Longrightarrow> distinct (map perk_id picks) \<Longrightarrow> length picks \<le> 3
    \<Longrightarrow> 3 \<le> card (set (map perk_id picks)
                  \<union> (\<lambda>j. perk_id (pool ! nat \<lfloor>rnd j * 5\<rfloor>)) ` {k..<k + m})
    \<Longrightarrow> \<exists>drawn k'. pickLoop rnd k picks = Some (Inr (drawn, k'))
          \<and> length drawn = 3 \<and> distinct (map perk_id drawn) \<and> set drawn \<subseteq> set pool"
proof (induction m arbitrary: k picks)
  case 0
  then have "3 \<le> card (set (map perk_id picks))" by simp
  also have "\<dots> = length picks" using "0.prems"(2) by (simp add: distinct_card del: set_map)
  finally have "length picks = 3" using "0.prems"(3) by simp
  then show ?case using "0.prems" by (simp add: pickLoop_done)
next
  case (Suc m)
  show ?case
  proof (cases "length picks < 3")
    case False
    with Suc.prems(3) have "length picks = 3" by simp
    then show ?thesis using Suc.prems by (simp add: pickLoop_done)
  next
    case True
    define c where "c = pool ! nat \<lfloor>rnd k * 5\<rfloor>"
    define next_picks where
      "next_picks = (if perk_id c \<notin> set (map perk_id picks) then picks @ [c] else picks)"
    have r: "0 \<le> rnd k" "rnd k < 1" using range by simp_all
    have "nat \<lfloor>rnd k * 5\<rfloor> < length pool"
      using draw_in_range [OF r] by (simp add: pool_length)
    then have c_pool: "c \<in> set pool" unfolding c_def by (rule nth_mem)
    have step: "pickLoop rnd k picks = pickLoop rnd (k + 1) next_picks"
      using pickLoop_draw [of picks rnd k] True r by (simp add: next_picks_def c_def)
    have sub: "set next_picks \<subseteq> set pool"
      using Suc.prems(1) c_pool by (simp add: next_picks_def)
    have dist: "distinct (map perk_id next_picks)"
      using Suc.prems(2) by (simp add: next_picks_def)
    have len: "length next_picks \<le> 3" using True by (simp add: next_picks_def)
    have split: "{k..<k + Suc m} = insert k {k + 1..<(k + 1) + m}" by auto
    have "set (map perk_id picks) \<union> (\<lambda>j. perk_id (pool ! nat \<lfloor>rnd j * 5\<rfloor>)) ` {k..<k + Suc m}
        = set (map perk_id next_picks)
          \<union> (\<lambda>j. perk_id (pool ! nat \<lfloor>rnd j * 5\<rfloor>)) ` {k + 1..<(k + 1) + m}"
      unfolding split by (auto simp: next_picks_def c_def)
    with Suc.prems(4)
    have many: "3 \<le> card (set (map perk_id next_picks)
                  \<union> (\<lambda>j. perk_id (pool ! nat \<lfloor>rnd j * 5\<rfloor>)) ` {k + 1..<(k + 1) + m})"
      by simp
    from Suc.IH [OF sub dist len many] show ?thesis unfolding step .
  qed
qed

lemma pool_id_inj:
  assumes "i < 5" and "j < 5" and "perk_id (pool ! i) = perk_id (pool ! j)"
  shows "i = j"
proof -
  have "map perk_id pool ! i = map perk_id pool ! j"
    using assms by (simp add: pool_length)
  then show ?thesis
    using nth_eq_iff_index_eq [OF pool_ids_distinct, of i j] assms(1,2)
    by (simp add: pool_length)
qed

lemma three_draws_card:
  fixes rnd :: "nat \<Rightarrow> real"
  assumes range: "\<forall>j. 0 \<le> rnd j \<and> rnd j < 1"
    and "k \<le> j1" "k \<le> j2" "k \<le> j3"
    and "\<lfloor>rnd j1 * 5\<rfloor> \<noteq> \<lfloor>rnd j2 * 5\<rfloor>" "\<lfloor>rnd j1 * 5\<rfloor> \<noteq> \<lfloor>rnd j3 * 5\<rfloor>"
        "\<lfloor>rnd j2 * 5\<rfloor> \<noteq> \<lfloor>rnd j3 * 5\<rfloor>"
  shows "\<exists>m. 3 \<le> card ((\<lambda>j. perk_id (pool ! nat \<lfloor>rnd j * 5\<rfloor>)) ` {k..<k + m})"
proof -
  define f where "f = (\<lambda>j. perk_id (pool ! nat \<lfloor>rnd j * 5\<rfloor>))"
  define m where "m = Suc (max j1 (max j2 j3))"
  have idx: "nat \<lfloor>rnd j * 5\<rfloor> < 5" for j
    using draw_in_range [of "rnd j"] range by simp
  have neq: "f a \<noteq> f b" if "\<lfloor>rnd a * 5\<rfloor> \<noteq> \<lfloor>rnd b * 5\<rfloor>" for a b
  proof
    assume "f a = f b"
    then have "nat \<lfloor>rnd a * 5\<rfloor> = nat \<lfloor>rnd b * 5\<rfloor>"
      unfolding f_def using idx by (intro pool_id_inj) simp_all
    moreover have "0 \<le> \<lfloor>rnd a * 5\<rfloor>" "0 \<le> \<lfloor>rnd b * 5\<rfloor>"
      using draw_in_range [of "rnd a"] draw_in_range [of "rnd b"] range by simp_all
    ultimately show False using that by linarith
  qed
  have three: "card {f j1, f j2, f j3} = 3"
    using neq [OF assms(5)] neq [OF assms(6)] neq [OF assms(7)] by simp
  have "{f j1, f j2, f j3} \<subseteq> f ` {k..<k + m}"
    using assms(2-4) by (auto simp: m_def)
  then have "card {f j1, f j2, f j3} \<le> card (f ` {k..<k + m})"
    by (intro card_mono) simp_all
  with three show ?thesis unfolding f_def by (intro exI [of _ m]) simp
qed


text \<open>
  The loop that draws the perks returns only if the random source yields three
  different pool indices; with a source that stays constant it runs forever.
\<close>

lemma pickLoop_constant_never_returns:
  "pickLoop (\<lambda>_. 0) k [] = None"
proof -
  have stuck: "rnd = (\<lambda>_. 0) \<longrightarrow> set picks \<subseteq> {pool ! 0} \<longrightarrow> length picks \<le> 1 \<longrightarrow> False"
    if "pickLoop rnd k picks = Some y" for rnd k picks y
  proof (rule pickLoop.raw_induct [where P = "\<lambda>rnd k picks y.
      rnd = (\<lambda>_. 0) \<longrightarrow> set picks \<subseteq> {pool ! 0} \<longrightarrow> length picks \<le> 1 \<longrightarrow> False"], goal_cases)
    case (1 loop rnd k picks y)
    show ?case
    proof (intro impI)
      assume const: "rnd = (\<lambda>_. 0)" and sub: "set picks \<subseteq> {pool ! 0}" and len: "length picks \<le> 1"
      from 1(2) [unfolded const] len have body:
        "(if find (\<lambda>p. perk_id p = perk_id (pool ! 0)) picks = None
          then loop (\<lambda>_. 0) (k + 1) (picks @ [pool ! 0])
          else loop (\<lambda>_. 0) (k + 1) picks) = Some y"
        by (auto simp: pool_length split: if_splits)
      show False
      proof (cases "find (\<lambda>p. perk_id p = perk_id (pool ! 0)) picks = None")
        case True
        then have "picks = []" using sub by (cases picks) (auto simp: find_None_iff)
        with body True have "loop (\<lambda>_. 0) (k + 1) [pool ! 0] = Some y" by simp
        from 1(1) [OF this] show False by simp
      next
        case False
        with body have "loop (\<lambda>_. 0) (k + 1) picks = Some y" by simp
        from 1(1) [OF this] sub len show False by simp
      qed
    qed
  qed (fact that)
  have "pickLoop (\<lambda>_. 0) k [] \<noteq> Some y" for y
    using stuck [of "\<lambda>_. 0" k "[]" y] by auto
  then show ?thesis by (cases "pickLoop (\<lambda>_. 0) k []") auto
qed

text \<open>
  Claim C4.  For a random source with values in \<open>[0, 1)\<close> that yields three different
  pool indices from the current position on: whenever the kill count has reached the
  milestone threshold and no perk prompt is open, the milestone block returns with the
  prompt open, the run paused, exactly 3 perk choices with pairwise distinct ids taken
  from the 5-entry pool, and the threshold raised by exactly 10; running the block
  again on that state changes nothing, as it changes nothing whenever a prompt is open
  or the threshold has not been reached.
\<close>

theorem milestoneBlock_prompt:
  fixes rnd :: "nat \<Rightarrow> real"
  assumes range: "\<forall>j. 0 \<le> rnd j \<and> rnd j < 1"
    and later: "k \<le> j1" "k \<le> j2" "k \<le> j3"
    and differ: "\<lfloor>rnd j1 * 5\<rfloor> \<noteq> \<lfloor>rnd j2 * 5\<rfloor>" "\<lfloor>rnd j1 * 5\<rfloor> \<noteq> \<lfloor>rnd j3 * 5\<rfloor>"
        "\<lfloor>rnd j2 * 5\<rfloor> \<noteq> \<lfloor>rnd j3 * 5\<rfloor>"
  shows "(nextMilestone s \<le> kills \<and> \<not> perkOpen s \<longrightarrow>
            (\<exists>s' k'. milestoneBlock rnd k kills pl s = Some (Inr (s', k'))
               \<and> perkOpen s' \<and> \<not> running s'
               \<and> length (perkChoices s') = 3
               \<and> distinct (map perk_id (perkChoices s'))
               \<and> set (perkChoices s') \<subseteq> set pool
               \<and> nextMilestone s' = nextMilestone s + 10
               \<and> milestoneBlock rnd k' kills pl s' = Some (Inr (s', k'))))
       \<and> (perkOpen s \<longrightarrow> milestoneBlock rnd k kills pl s = Some (Inr (s, k)))
       \<and> (kills < nextMilestone s \<longrightarrow> milestoneBlock rnd k kills pl s = Some (Inr (s, k)))
       \<and> length pool = 5"
proof (intro conjI impI)
  assume due: "nextMilestone s \<le> kills \<and> \<not> perkOpen s"
  from three_draws_card [OF range later differ] obtain m where
    "3 \<le> card ((\<lambda>j. perk_id (pool ! nat \<lfloor>rnd j * 5\<rfloor>)) ` {k..<k + m})" ..
  then have "3 \<le> card (set (map perk_id [])
                  \<union> (\<lambda>j. perk_id (pool ! nat \<lfloor>rnd j * 5\<rfloor>)) ` {k..<k + m})"
    by simp
  from pickLoop_terminates [OF range _ _ _ this]
  obtain drawn k1 where loop: "pickLoop rnd k [] = Some (Inr (drawn, k1))"
    and drawn: "length drawn = 3" "distinct (map perk_id drawn)" "set drawn \<subseteq> set pool"
    by auto
  define s' where "s' = s\<lparr> perkChoices := drawn, perkOpen := True, running := False,
      groundColors := pickRandomGroundColors (rnd k1),
      enemySpeed := enemySpeed s * 1.1,
      nextMilestone := nextMilestone s + 10,
      obstacles := fst (spawnObstacles rnd (k1 + 1) pl (obstacles s)) \<rparr>"
  define k' where "k' = snd (spawnObstacles rnd (k1 + 1) pl (obstacles s))"
  have block: "milestoneBlock rnd k kills pl s = Some (Inr (s', k'))"
    using due loop by (simp add: milestoneBlock_def Let_def s'_def k'_def)
  have again: "milestoneBlock rnd k' kills pl s' = Some (Inr (s', k'))"
    by (simp add: milestoneBlock_def s'_def)
  show "\<exists>s' k'. milestoneBlock rnd k kills pl s = Some (Inr (s', k'))
               \<and> perkOpen s' \<and> \<not> running s'
               \<and> length (perkChoices s') = 3
               \<and> distinct (map perk_id (perkChoices s'))
               \<and> set (perkChoices s') \<subseteq> set pool
               \<and> nextMilestone s' = nextMilestone s + 10
               \<and> milestoneBlock rnd k' kills pl s' = Some (Inr (s', k'))"
    using block again drawn by (intro exI [of _ s'] exI [of _ k']) (simp add: s'_def)
next
  assume "perkOpen s"
  then show "milestoneBlock rnd k kills pl s = Some (Inr (s, k))"
    by (simp add: milestoneBlock_def)
next
  assume "kills < nextMilestone s"
  then show "milestoneBlock rnd k kills pl s = Some (Inr (s, k))"
    by (simp add: milestoneBlock_def)
next
  show "length pool = 5" by (rule pool_length)
qed

theorem milestoneBlock_prompt_witness:
  "(let rnd = (\<lambda>j::nat. if j = 0 then 0 else if j = 1 then 0.2 else (0.4::real));
        s = \<lparr> perkOpen = False, running = True, gameOver = False,
              perkChoices = [], nextMilestone = 10, enemySpeed = 1.3,
              groundColors = \<lparr> ground_top = ''#7bd389'', ground_bottom = ''#4caf50'' \<rparr>,
              obstacles = [] \<rparr>
    in (\<exists>s' k'. milestoneBlock rnd 0 10 initialPlayer s = Some (Inr (s', k'))
         \<and> perkOpen s' \<and> length (perkChoices s') = 3
         \<and> distinct (map perk_id (perkChoices s'))
         \<and> nextMilestone s' = 20)
     \<and> milestoneBlock rnd 0 10 initialPlayer (s\<lparr> perkOpen := True \<rparr>)
          = Some (Inr (s\<lparr> perkOpen := True \<rparr>, 0))
     \<and> milestoneBlock rnd 0 9 initialPlayer s = Some (Inr (s, 0)))"
proof -
  define rnd where "rnd = (\<lambda>j::nat. if j = 0 then 0 else if j = 1 then 0.2 else (0.4::real))"
  define s :: Run where "s = \<lparr> perkOpen = False, running = True, gameOver = False,
              perkChoices = [], nextMilestone = 10, enemySpeed = 1.3,
              groundColors = \<lparr> ground_top = ''#7bd389'', ground_bottom = ''#4caf50'' \<rparr>,
              obstacles = [] \<rparr>"
  have range: "\<forall>j. 0 \<le> rnd j \<and> rnd j < 1" by (simp add: rnd_def)
  have later: "(0::nat) \<le> 0" "(0::nat) \<le> 1" "(0::nat) \<le> 2" by simp_all
  have differ: "\<lfloor>rnd 0 * 5\<rfloor> \<noteq> \<lfloor>rnd 1 * 5\<rfloor>" "\<lfloor>rnd 0 * 5\<rfloor> \<noteq> \<lfloor>rnd 2 * 5\<rfloor>"
    "\<lfloor>rnd 1 * 5\<rfloor> \<noteq> \<lfloor>rnd 2 * 5\<rfloor>"
    by (simp_all add: rnd_def)
  have due: "nextMilestone s \<le> 10 \<and> \<not> perkOpen s" by (simp add: s_def)
  from milestoneBlock_prompt [OF range later differ, of s 10 initialPlayer] due
  obtain s' k' where "milestoneBlock rnd 0 10 initialPlayer s = Some (Inr (s', k'))"
    "perkOpen s'" "length (perkChoices s') = 3" "distinct (map perk_id (perkChoices s'))"
    "nextMilestone s' = nextMilestone s + 10"
    by blast
  then have opened: "\<exists>s' k'. milestoneBlock rnd 0 10 initialPlayer s = Some (Inr (s', k'))
         \<and> perkOpen s' \<and> length (perkChoices s') = 3
         \<and> distinct (map perk_id (perkChoices s'))
         \<and> nextMilestone s' = 20"
    by (intro exI [of _ s'] exI [of _ k']) (simp add: s_def)
  have "perkOpen (s\<lparr> perkOpen := True \<rparr>)" by simp
  with milestoneBlock_prompt [OF range later differ, of "s\<lparr> perkOpen := True \<rparr>" 10 initialPlayer]
  have shut: "milestoneBlock rnd 0 10 initialPlayer (s\<lparr> perkOpen := True \<rparr>)
      = Some (Inr (s\<lparr> perkOpen := True \<rparr>, 0))"
    by blast
  have "9 < nextMilestone s" by (simp add: s_def)
  with milestoneBlock_prompt [OF range later differ, of s 9 initialPlayer]
  have early: "milestoneBlock rnd 0 9 initialPlayer s = Some (Inr (s, 0))"
    by blast
  show ?thesis
    unfolding Let_def rnd_def [symmetric] s_def [symmetric]
    using opened shut early by simp
qed

end
